theory Spec2Isabelle
  imports Complex_Main "HOL-Library.Word"
begin

unbundle bit_operations_syntax

text \<open>
  A model of the frame codec, the obfuscation cipher, the peer table and the chat
  manager of src/script.js, and proofs of their properties.  Random values and the
  clock (\<open>Math.random\<close>, \<open>Date.now\<close>) are parameters of the functions that read them.
\<close>

section \<open>Frame codec of \<open>UltrasonicComm\<close> (src/script.js)\<close>

text \<open>
  A byte is an element of a \<open>Uint8Array\<close>.  A bit of the bit stream is the number 0 or 1
  (\<open>(byte >> j) & 1\<close> on the sending side, \<open>result1 > result0 ? 1 : 0\<close> on the receiving
  side); it is modelled as a \<open>bool\<close>, \<open>True\<close> for 1.
\<close>

type_synonym byte = "8 word"

datatype error = PayloadTooLarge | NoActiveRoom | TypeError

text \<open>\<open>this.packetHeader = [1, 0, 1, 0, 1, 1, 0, 1]\<close> and \<open>this.maxPayloadLength = 32\<close>.\<close>

definition packetHeader :: "byte list" where
  "packetHeader = [1, 0, 1, 0, 1, 1, 0, 1]"

definition maxPayloadLength :: nat where
  "maxPayloadLength = 32"

text \<open>\<open>calculateCRC\<close>: the XOR of all bytes, masked with \<open>0xFF\<close>.\<close>

definition calculateCRC :: "byte list \<Rightarrow> byte" where
  "calculateCRC data = (foldl (\<lambda>crc b. crc XOR b) 0 data) AND 0xFF"

text \<open>
  \<open>encodePacket\<close>, from the payload bytes on (the payload is
  \<open>new TextEncoder().encode(JSON.stringify(data))\<close>, computed by the platform).
  The packet is a \<open>Uint8Array\<close>, so the length is stored modulo 256.
\<close>

definition encodePacket :: "byte list \<Rightarrow> error + byte list" where
  "encodePacket payload =
     (if length payload > maxPayloadLength then Inl PayloadTooLarge
      else Inr (packetHeader @ [of_nat (length payload)] @ payload @ [calculateCRC payload]))"

text \<open>\<open>createBitStream\<close>: every byte gives its eight bits, least significant first.\<close>

definition byteBits :: "byte \<Rightarrow> bool list" where
  "byteBits b = map (\<lambda>j. bit b j) [0..<8]"

definition createBitStream :: "byte list \<Rightarrow> bool list" where
  "createBitStream packet = concat (map byteBits packet)"

text \<open>
  The receiver reads \<open>this.bitBuffer[k]\<close>; an index past the end gives \<open>undefined\<close>,
  and \<open>undefined << j\<close> is 0.
\<close>

definition bitAt :: "bool list \<Rightarrow> nat \<Rightarrow> byte" where
  "bitAt buf k = (if k < length buf \<and> buf ! k then 1 else 0)"

text \<open>The loop \<open>for (j = 0; j < 8; j++) byte |= this.bitBuffer[start + j] << j\<close>.\<close>

definition readByte :: "bool list \<Rightarrow> nat \<Rightarrow> byte" where
  "readByte buf start = foldl (\<lambda>byte j. byte OR push_bit j (bitAt buf (start + j))) 0 [0..<8]"

text \<open>\<open>matchHeader\<close>: the eight bytes from \<open>startIndex\<close> on are compared with the header.\<close>

definition matchHeader :: "bool list \<Rightarrow> nat \<Rightarrow> bool" where
  "matchHeader buf startIndex =
     list_all (\<lambda>i. readByte buf (startIndex + i * 8) = packetHeader ! i) [0..<length packetHeader]"

record packet =
  payload :: "byte list"
  plength :: nat

text \<open>\<open>extractPacket\<close>; \<open>null\<close> is \<open>None\<close>.\<close>

definition extractPacket :: "bool list \<Rightarrow> nat \<Rightarrow> packet option" where
  "extractPacket buf startIndex =
     (let headerLen = length packetHeader * 8;
          lengthIndex = startIndex + headerLen
      in if lengthIndex + 8 > length buf then None
         else
           let payloadLength = unat (readByte buf lengthIndex)
           in if payloadLength > maxPayloadLength then None
              else
                let totalPacketBits = (length packetHeader + 1 + payloadLength + 1) * 8
                in if startIndex + totalPacketBits > length buf then None
                   else
                     let packetBytes = map (\<lambda>i. readByte buf (startIndex + i * 8))
                                         [0..<length packetHeader + 1 + payloadLength + 1];
                         payload = drop (length packetHeader + 1) (butlast packetBytes);
                         receivedCRC = last packetBytes;
                         calculatedCRC = calculateCRC payload
                     in if receivedCRC = calculatedCRC
                        then Some \<lparr>payload = payload, plength = length packetBytes\<rparr>
                        else None)"

text \<open>
  The search loop of \<open>tryDecodePacket\<close>,
  \<open>for (i = 0; i <= this.bitBuffer.length - this.packetHeader.length * 8; i += 8)\<close>,
  from candidate \<open>i\<close> on; the condition of the loop is written without the
  subtraction, which may be negative in the source.  The result is the first candidate
  that matches the header and yields a packet.
\<close>

function scanFrom :: "bool list \<Rightarrow> nat \<Rightarrow> (nat \<times> packet) option" where
  "scanFrom buf i =
     (if i + length packetHeader * 8 \<le> length buf then
        (if matchHeader buf i then
           (case extractPacket buf i of
              Some p \<Rightarrow> Some (i, p)
            | None \<Rightarrow> scanFrom buf (i + 8))
         else scanFrom buf (i + 8))
      else None)"
  by pat_completeness auto
termination
  by (relation "measure (\<lambda>(buf, i). length buf + 8 - i)") auto

declare scanFrom.simps [simp del]

text \<open>
  \<open>tryDecodePacket\<close>: the new buffer and the packet handed to \<open>handleReceivedPacket\<close>,
  if any.
\<close>

definition tryDecodePacket :: "bool list \<Rightarrow> bool list \<times> packet option" where
  "tryDecodePacket buf =
     (if length buf < (length packetHeader + 2) * 8 then (buf, None)
      else case scanFrom buf 0 of
             Some (i, p) \<Rightarrow> (drop (i + plength p * 8) buf, Some p)
           | None \<Rightarrow>
               (if length buf > 1000 then (drop (length buf - 500) buf, None)
                else (buf, None)))"






section \<open>The obfuscation cipher of \<open>ChatManager\<close>\<close>

text \<open>
  JavaScript strings are modelled as \<open>string\<close>, one \<open>char\<close> for each code unit below
  256.  \<open>new TextEncoder().encode\<close> and \<open>new TextDecoder().decode\<close> belong to the
  platform; the functions below take them as the parameters \<open>enc\<close> and \<open>dec\<close>.
\<close>

text \<open>
  \<open>keyBytes[i % keyBytes.length]\<close> as an operand of \<open>^\<close>.  For an empty key the index is
  \<open>NaN\<close>, the element is \<open>undefined\<close>, and \<open>x ^ undefined\<close> is \<open>x\<close>.
\<close>

definition keyByteAt :: "byte list \<Rightarrow> nat \<Rightarrow> byte" where
  "keyByteAt keyBytes i = (if keyBytes = [] then 0 else keyBytes ! (i mod length keyBytes))"

text \<open>\<open>b.toString(16)\<close> for a byte, and \<open>.padStart(2, '0')\<close>.\<close>

definition hexDigit :: "nat \<Rightarrow> char" where
  "hexDigit n = ''0123456789abcdef'' ! n"

definition toString16 :: "byte \<Rightarrow> string" where
  "toString16 b =
     (if unat b < 16 then [hexDigit (unat b)]
      else [hexDigit (unat b div 16), hexDigit (unat b mod 16)])"

definition padStart2 :: "string \<Rightarrow> string" where
  "padStart2 s = (if length s < 2 then replicate (2 - length s) (CHR ''0'') @ s else s)"

definition encryptMessage :: "(string \<Rightarrow> byte list) \<Rightarrow> string \<Rightarrow> string \<Rightarrow> string" where
  "encryptMessage enc message key =
     (let messageBytes = enc message;
          keyBytes = enc key;
          encrypted = map (\<lambda>i. messageBytes ! i XOR keyByteAt keyBytes i)
                        [0..<length messageBytes]
      in concat (map (\<lambda>b. padStart2 (toString16 b)) encrypted))"

text \<open>
  \<open>encryptedHex.match(/.{2}/g)\<close>: the successive matches of two characters, where \<open>.\<close>
  matches every character but a line terminator (line feed and carriage return, among
  the code units below 256); where no match starts, the search moves on by one character.
  Without any match the result is \<open>null\<close>, here the empty list.
\<close>

definition isLineTerminator :: "char \<Rightarrow> bool" where
  "isLineTerminator c = (c = CHR 0x0A \<or> c = CHR 0x0D)"

fun matchPairs :: "string \<Rightarrow> string list" where
  "matchPairs (a # b # rest) =
     (if \<not> isLineTerminator a \<and> \<not> isLineTerminator b then [a, b] # matchPairs rest
      else matchPairs (b # rest))"
| "matchPairs _ = []"

text \<open>
  \<open>parseInt(h, 16)\<close>: leading white space is skipped, a sign is read, a prefix \<open>0x\<close> or
  \<open>0X\<close> is dropped, and the longest run of hexadecimal digits is the value; without a
  digit the result is \<open>NaN\<close>, here \<open>None\<close>.
\<close>

definition isWhiteSpace :: "char \<Rightarrow> bool" where
  "isWhiteSpace c = (c \<in> {CHR 0x09, CHR 0x0A, CHR 0x0B, CHR 0x0C, CHR 0x0D, CHR 0x20, CHR 0xA0})"

definition hexValue :: "char \<Rightarrow> nat option" where
  "hexValue c =
     (let n = (of_char c :: nat)
      in if 48 \<le> n \<and> n \<le> 57 then Some (n - 48)
         else if 97 \<le> n \<and> n \<le> 102 then Some (n - 87)
         else if 65 \<le> n \<and> n \<le> 70 then Some (n - 55)
         else None)"

definition parseInt16 :: "string \<Rightarrow> int option" where
  "parseInt16 s =
     (let s1 = dropWhile isWhiteSpace s;
          negative = (s1 \<noteq> [] \<and> hd s1 = CHR ''-'');
          s2 = (if s1 \<noteq> [] \<and> (hd s1 = CHR ''+'' \<or> hd s1 = CHR ''-'') then tl s1 else s1);
          s3 = (if take 2 s2 = ''0x'' \<or> take 2 s2 = ''0X'' then drop 2 s2 else s2);
          z = takeWhile (\<lambda>c. hexValue c \<noteq> None) s3
      in if z = [] then None
         else Some ((if negative then - 1 else 1)
                    * int (foldl (\<lambda>a c. 16 * a + the (hexValue c)) 0 z)))"

text \<open>Storing a number in a \<open>Uint8Array\<close>: \<open>NaN\<close> becomes 0, other values wrap modulo 256.\<close>

definition toUint8 :: "int option \<Rightarrow> byte" where
  "toUint8 v = (case v of None \<Rightarrow> 0 | Some n \<Rightarrow> word_of_int n)"

text \<open>
  \<open>decryptMessage\<close>.  When \<open>match\<close> returns \<open>null\<close>, the call of \<open>.map\<close> on it throws a
  \<open>TypeError\<close>.
\<close>

definition decryptMessage ::
  "(string \<Rightarrow> byte list) \<Rightarrow> (byte list \<Rightarrow> string) \<Rightarrow> string \<Rightarrow> string \<Rightarrow> error + string" where
  "decryptMessage enc dec encryptedHex key =
     (case matchPairs encryptedHex of
        [] \<Rightarrow> Inl TypeError
      | ms \<Rightarrow>
          (let encrypted = map (\<lambda>h. toUint8 (parseInt16 h)) ms;
               keyBytes = enc key;
               decrypted = map (\<lambda>i. encrypted ! i XOR keyByteAt keyBytes i)
                             [0..<length encrypted]
           in Inr (dec decrypted)))"

section \<open>Peer table of \<open>UltrasonicComm\<close>\<close>

text \<open>
  The object sent as a heartbeat or discovery datagram (\<open>sendHeartbeat\<close>,
  \<open>sendDiscovery\<close>): \<open>type\<close>, \<open>userId\<close>, \<open>username\<close>, \<open>timestamp\<close>.  \<open>Date.now()\<close> is
  an integer number of milliseconds; the functions below take it as the parameter \<open>now\<close>.
\<close>

record heartbeat =
  hbType :: string
  userId :: string
  username :: string
  hbTimestamp :: int

text \<open>An entry of \<open>discoveredUsers\<close>: \<open>{...data, lastSeen: Date.now()}\<close>.\<close>

record discoveredUser = heartbeat +
  lastSeen :: int

text \<open>
  A JavaScript \<open>Map\<close> keeps its keys in insertion order: \<open>set\<close> on a present key
  replaces the value in place, on a new key it appends; \<open>delete\<close> removes the entry.
\<close>

fun mapSet :: "'k \<Rightarrow> 'v \<Rightarrow> ('k \<times> 'v) list \<Rightarrow> ('k \<times> 'v) list" where
  "mapSet k v [] = [(k, v)]"
| "mapSet k v ((k', v') # m) = (if k' = k then (k, v) # m else (k', v') # mapSet k v m)"

text \<open>
  The part of \<open>UltrasonicComm\<close> used by the peer table.  \<open>userDetectedCalls\<close> lists the
  arguments of the calls of the callback \<open>onUserDetected\<close>, oldest first.
\<close>

record ultrasonicComm =
  commUserId :: string
  discoveredUsers :: "(string \<times> discoveredUser) list"
  userDetectedCalls :: "(string \<times> heartbeat) list"

definition handleHeartbeat :: "ultrasonicComm \<Rightarrow> heartbeat \<Rightarrow> int \<Rightarrow> ultrasonicComm" where
  "handleHeartbeat c data now =
     (if userId data \<noteq> commUserId c then
        c\<lparr>discoveredUsers :=
             mapSet (userId data) (heartbeat.extend data \<lparr>lastSeen = now\<rparr>) (discoveredUsers c),
           userDetectedCalls := userDetectedCalls c @ [(userId data, data)]\<rparr>
      else c)"

definition handleDiscovery :: "ultrasonicComm \<Rightarrow> heartbeat \<Rightarrow> int \<Rightarrow> ultrasonicComm" where
  "handleDiscovery c data now = handleHeartbeat c data now"

definition cleanupExpiredUsers :: "ultrasonicComm \<Rightarrow> int \<Rightarrow> ultrasonicComm" where
  "cleanupExpiredUsers c now =
     (let timeout = 10000
      in c\<lparr>discoveredUsers :=
             filter (\<lambda>(uid, user). \<not> (now - lastSeen user > timeout)) (discoveredUsers c)\<rparr>)"

definition getDiscoveredUsers :: "ultrasonicComm \<Rightarrow> discoveredUser list" where
  "getDiscoveredUsers c = map snd (discoveredUsers c)"

section \<open>\<open>ChatManager\<close>\<close>

record room =
  rid :: string
  rname :: string
  isPrivate :: bool
  members :: "string list"
  createdBy :: string
  createdAt :: int
  roomEncryptionKey :: "string option"

text \<open>The chat datagram built by \<open>sendMessage\<close>.\<close>

record chatDatagram =
  messageId :: string
  roomId :: string
  fromUserId :: string
  fromUsername :: string
  content :: string
  messageType :: string
  isEncrypted :: bool
  timestamp :: int

text \<open>
  The objects handed to \<open>ultrasonicComm.transmitData\<close> by the functions below: a chat
  datagram, or the \<open>private_key\<close> datagram with \<open>roomId\<close>, \<open>encryptionKey\<close>, \<open>fromUserId\<close>
  and \<open>timestamp\<close>.
\<close>

datatype datagram =
  Chat chatDatagram
| PrivateKey string string string int

text \<open>
  An entry of the message history: a chat datagram with the flag \<open>isOwn\<close>, or a system
  message with \<open>messageId\<close>, \<open>content\<close> and \<open>timestamp\<close>.
\<close>

datatype message =
  ChatMessage chatDatagram bool
| SystemMessage string string int

record connectedUser =
  cuUserId :: string
  cuUsername :: string
  cuLastSeen :: int
  isOnline :: bool

text \<open>
  The state of a \<open>ChatManager\<close>.  Rooms are objects: \<open>rooms\<close> maps a room id to a
  reference, \<open>currentRoom\<close> is a reference or \<open>null\<close>, and \<open>heap\<close> gives the object behind
  each reference, so that a change made through \<open>currentRoom\<close> is seen through \<open>rooms\<close> too.
  \<open>transmitted\<close> lists the arguments of the calls of \<open>ultrasonicComm.transmitData\<close>, and
  the fields ending in \<open>Calls\<close> list the arguments of the calls of the callbacks
  \<open>onMessageReceived\<close>, \<open>onUserLeft\<close> and \<open>onRoomStateChanged\<close>, oldest first.
\<close>

record chatManager =
  currentRoom :: "nat option"
  rooms :: "(string \<times> nat) list"
  heap :: "nat \<Rightarrow> room"
  isPrivateMode :: bool
  encryptionKey :: "string option"
  messageHistory :: "message list"
  connectedUsers :: "(string \<times> connectedUser) list"
  myUserId :: string
  myUsername :: string
  transmitted :: "datagram list"
  messageReceivedCalls :: "message list"
  userLeftCalls :: "(string \<times> connectedUser) list"
  roomStateChangedCalls :: "room option list"

text \<open>The room object \<open>this.currentRoom\<close>, if any.\<close>

definition currentRoomObject :: "chatManager \<Rightarrow> room option" where
  "currentRoomObject s = (case currentRoom s of None \<Rightarrow> None | Some ref \<Rightarrow> Some (heap s ref))"

text \<open>An assignment to a field of the object \<open>this.currentRoom\<close>.\<close>

definition updateCurrentRoom :: "(room \<Rightarrow> room) \<Rightarrow> chatManager \<Rightarrow> chatManager" where
  "updateCurrentRoom f s =
     (case currentRoom s of
        None \<Rightarrow> s
      | Some ref \<Rightarrow> s\<lparr>heap := (heap s)(ref := f (heap s ref))\<rparr>)"

text \<open>
  \<open>this.encryptionKey\<close> used as a condition: \<open>null\<close> and the empty string count as
  false.
\<close>

definition truthy :: "string option \<Rightarrow> bool" where
  "truthy k = (case k of None \<Rightarrow> False | Some key \<Rightarrow> key \<noteq> [])"

text \<open>
  The fixed texts of the source lie outside the code units below 256; each constant
  below stands for one of them and holds its UTF-8 bytes.  In the order of the
  definitions they read: the room has been switched to private mode; the room has been
  switched to public mode; encrypted message, decryption failed; encrypted message, no
  decryption key.
\<close>

definition textSwitchedPrivate :: string where
  "textSwitchedPrivate =
     [CHR 0xE8, CHR 0x81, CHR 0x8A, CHR 0xE5, CHR 0xA4, CHR 0xA9, CHR 0xE5, CHR 0xAE, CHR 0xA4,
      CHR 0xE5, CHR 0xB7, CHR 0xB2, CHR 0xE5, CHR 0x88, CHR 0x87, CHR 0xE6, CHR 0x8D, CHR 0xA2,
      CHR 0xE4, CHR 0xB8, CHR 0xBA, CHR 0xE7, CHR 0xA7, CHR 0x81, CHR 0xE5, CHR 0xAF, CHR 0x86,
      CHR 0xE6, CHR 0xA8, CHR 0xA1, CHR 0xE5, CHR 0xBC, CHR 0x8F]"

definition textSwitchedPublic :: string where
  "textSwitchedPublic =
     [CHR 0xE8, CHR 0x81, CHR 0x8A, CHR 0xE5, CHR 0xA4, CHR 0xA9, CHR 0xE5, CHR 0xAE, CHR 0xA4,
      CHR 0xE5, CHR 0xB7, CHR 0xB2, CHR 0xE5, CHR 0x88, CHR 0x87, CHR 0xE6, CHR 0x8D, CHR 0xA2,
      CHR 0xE4, CHR 0xB8, CHR 0xBA, CHR 0xE5, CHR 0x85, CHR 0xAC, CHR 0xE5, CHR 0xBC, CHR 0x80,
      CHR 0xE6, CHR 0xA8, CHR 0xA1, CHR 0xE5, CHR 0xBC, CHR 0x8F]"

definition textDecryptFailed :: string where
  "textDecryptFailed =
     [CHR 0x5B, CHR 0xE5, CHR 0x8A, CHR 0xA0, CHR 0xE5, CHR 0xAF, CHR 0x86, CHR 0xE6, CHR 0xB6,
      CHR 0x88, CHR 0xE6, CHR 0x81, CHR 0xAF, CHR 0x20, CHR 0x2D, CHR 0x20, CHR 0xE8, CHR 0xA7,
      CHR 0xA3, CHR 0xE5, CHR 0xAF, CHR 0x86, CHR 0xE5, CHR 0xA4, CHR 0xB1, CHR 0xE8, CHR 0xB4,
      CHR 0xA5, CHR 0x5D]"

definition textNoKey :: string where
  "textNoKey =
     [CHR 0x5B, CHR 0xE5, CHR 0x8A, CHR 0xA0, CHR 0xE5, CHR 0xAF, CHR 0x86, CHR 0xE6, CHR 0xB6,
      CHR 0x88, CHR 0xE6, CHR 0x81, CHR 0xAF, CHR 0x20, CHR 0x2D, CHR 0x20, CHR 0xE6, CHR 0x97,
      CHR 0xA0, CHR 0xE8, CHR 0xA7, CHR 0xA3, CHR 0xE5, CHR 0xAF, CHR 0x86, CHR 0xE5, CHR 0xAF,
      CHR 0x86, CHR 0xE9, CHR 0x92, CHR 0xA5, CHR 0x5D]"

text \<open>\<open>this.maxHistorySize = 100\<close>, set by the constructor and never changed.\<close>

definition maxHistorySize :: nat where
  "maxHistorySize = 100"

text \<open>
  \<open>addMessage\<close>: append, then keep the last \<open>maxHistorySize\<close> entries
  (\<open>slice(-this.maxHistorySize)\<close>).
\<close>

definition addMessage :: "chatManager \<Rightarrow> message \<Rightarrow> chatManager" where
  "addMessage s m =
     (let history = messageHistory s @ [m]
      in s\<lparr>messageHistory :=
             (if length history > maxHistorySize
              then drop (length history - maxHistorySize) history
              else history)\<rparr>)"

text \<open>
  \<open>addSystemMessage\<close>; \<open>generateMessageId()\<close> and \<open>Date.now()\<close> are the parameters
  \<open>newId\<close> and \<open>now\<close>.
\<close>

definition addSystemMessage :: "chatManager \<Rightarrow> string \<Rightarrow> string \<Rightarrow> int \<Rightarrow> chatManager" where
  "addSystemMessage s text newId now =
     (let m = SystemMessage newId text now;
          s1 = addMessage s m
      in s1\<lparr>messageReceivedCalls := messageReceivedCalls s1 @ [m]\<rparr>)"

text \<open>\<open>distributeEncryptionKey\<close>.\<close>

definition distributeEncryptionKey :: "chatManager \<Rightarrow> int \<Rightarrow> chatManager" where
  "distributeEncryptionKey s now =
     (case currentRoomObject s of
        None \<Rightarrow> s
      | Some r \<Rightarrow>
          (if \<not> truthy (encryptionKey s) then s
           else s\<lparr>transmitted := transmitted s
                     @ [PrivateKey (rid r) (the (encryptionKey s)) (myUserId s) now]\<rparr>))"

text \<open>
  \<open>togglePrivacyMode\<close>.  \<open>generateEncryptionKey()\<close> is the parameter \<open>newKey\<close>,
  \<open>generateMessageId()\<close> is \<open>newId\<close>, and the two readings of \<open>Date.now()\<close> (for the key
  datagram and for the system message) are \<open>nowKey\<close> and \<open>nowMessage\<close>.  The result is
  the returned boolean and the new state.  The function is taken to run to its end
  without another handler running at its \<open>await\<close>.
\<close>

definition togglePrivacyMode ::
  "chatManager \<Rightarrow> string \<Rightarrow> string \<Rightarrow> int \<Rightarrow> int \<Rightarrow> bool \<times> chatManager" where
  "togglePrivacyMode s newKey newId nowKey nowMessage =
     (if currentRoom s = None then (False, s)
      else
        let s1 = s\<lparr>isPrivateMode := \<not> isPrivateMode s\<rparr>;
            s2 = updateCurrentRoom (\<lambda>r. r\<lparr>isPrivate := isPrivateMode s1\<rparr>) s1;
            s3 = (if isPrivateMode s2 then
                    let a = s2\<lparr>encryptionKey := Some newKey\<rparr>;
                        b = updateCurrentRoom (\<lambda>r. r\<lparr>roomEncryptionKey := encryptionKey a\<rparr>) a;
                        c = distributeEncryptionKey b nowKey
                    in addSystemMessage c textSwitchedPrivate newId nowMessage
                  else
                    let a = s2\<lparr>encryptionKey := None\<rparr>;
                        b = updateCurrentRoom (\<lambda>r. r\<lparr>roomEncryptionKey := None\<rparr>) a
                    in addSystemMessage b textSwitchedPublic newId nowMessage);
            s4 = s3\<lparr>roomStateChangedCalls := roomStateChangedCalls s3 @ [currentRoomObject s3]\<rparr>
        in (isPrivateMode s4, s4))"

text \<open>
  \<open>sendMessage\<close>, with \<open>generateMessageId()\<close> and \<open>Date.now()\<close> as the parameters
  \<open>newId\<close> and \<open>now\<close>.  The result is the error thrown, or the returned datagram and the
  new state.
\<close>

definition sendMessage ::
  "(string \<Rightarrow> byte list) \<Rightarrow> chatManager \<Rightarrow> string \<Rightarrow> string \<Rightarrow> string \<Rightarrow> int
     \<Rightarrow> error + (chatDatagram \<times> chatManager)" where
  "sendMessage enc s text type newId now =
     (case currentRoomObject s of
        None \<Rightarrow> Inl NoActiveRoom
      | Some r \<Rightarrow>
          (let messageContent =
                 (if isPrivateMode s \<and> truthy (encryptionKey s)
                  then encryptMessage enc text (the (encryptionKey s))
                  else text);
               msg = \<lparr>messageId = newId, roomId = rid r, fromUserId = myUserId s,
                      fromUsername = myUsername s, content = messageContent,
                      messageType = type, isEncrypted = isPrivateMode s, timestamp = now\<rparr>;
               s1 = addMessage s (ChatMessage (msg\<lparr>content := text\<rparr>) True);
               s2 = s1\<lparr>transmitted := transmitted s1 @ [Chat msg]\<rparr>
           in Inr (msg, s2)))"

text \<open>\<open>ChatManager.handleChatMessage\<close>.\<close>

definition handleChatMessage ::
  "(string \<Rightarrow> byte list) \<Rightarrow> (byte list \<Rightarrow> string) \<Rightarrow> chatManager \<Rightarrow> chatDatagram
     \<Rightarrow> chatManager" where
  "handleChatMessage enc dec s data =
     (case currentRoomObject s of
        None \<Rightarrow> s
      | Some r \<Rightarrow>
          (if roomId data \<noteq> rid r then s
           else if fromUserId data = myUserId s then s
           else
             let text =
                   (if isEncrypted data \<and> truthy (encryptionKey s) then
                      (case decryptMessage enc dec (content data) (the (encryptionKey s)) of
                         Inr t \<Rightarrow> t
                       | Inl e \<Rightarrow> textDecryptFailed)
                    else if isEncrypted data \<and> \<not> truthy (encryptionKey s) then textNoKey
                    else content data);
                 m = ChatMessage (data\<lparr>content := text\<rparr>) False;
                 s1 = addMessage s m
             in s1\<lparr>messageReceivedCalls := messageReceivedCalls s1 @ [m]\<rparr>))"

text \<open>\<open>handleUserDetected\<close>, without the call of \<open>onUserJoined\<close>.\<close>

definition handleUserDetected :: "chatManager \<Rightarrow> string \<Rightarrow> heartbeat \<Rightarrow> int \<Rightarrow> chatManager" where
  "handleUserDetected s uid userData now =
     (case map_of (connectedUsers s) uid of
        None \<Rightarrow>
          s\<lparr>connectedUsers :=
              mapSet uid \<lparr>cuUserId = uid, cuUsername = username userData, cuLastSeen = now,
                          isOnline = True\<rparr> (connectedUsers s)\<rparr>
      | Some user \<Rightarrow>
          s\<lparr>connectedUsers :=
              mapSet uid (user\<lparr>cuLastSeen := now, isOnline := True\<rparr>) (connectedUsers s)\<rparr>)"

text \<open>\<open>cleanupOfflineUsers\<close> and \<open>getConnectedUsers\<close>.\<close>

definition cleanupOfflineUsers :: "chatManager \<Rightarrow> int \<Rightarrow> chatManager" where
  "cleanupOfflineUsers s now =
     (let timeout = 30000;
          expired = (\<lambda>user. now - cuLastSeen user > timeout);
          users = map (\<lambda>(uid, user). (uid, if expired user then user\<lparr>isOnline := False\<rparr> else user))
                    (connectedUsers s)
      in s\<lparr>connectedUsers := users,
           userLeftCalls := userLeftCalls s @ filter (\<lambda>(uid, user). expired user) users\<rparr>)"

definition getConnectedUsers :: "chatManager \<Rightarrow> connectedUser list" where
  "getConnectedUsers s = map snd (connectedUsers s)"

section \<open>Example values\<close>

text \<open>
  On text of code units below 128, \<open>TextEncoder\<close> gives one byte for each code unit and
  \<open>TextDecoder\<close> one code unit for each byte below 128.  These two functions stand for
  the platform's encoder and decoder in the examples, which use such text only.
\<close>

definition asciiBytes :: "string \<Rightarrow> byte list" where
  "asciiBytes s = map (\<lambda>c. of_nat (of_char c)) s"

definition asciiText :: "byte list \<Rightarrow> string" where
  "asciiText bs = map (\<lambda>b. char_of (unat b)) bs"

text \<open>
  A chat manager of user \<open>A\<close> in the public room \<open>room42\<close>, as \<open>createOrJoinRoom\<close>
  leaves it, and a chat datagram of user \<open>B\<close> for this room.
\<close>

definition room42 :: room where
  "room42 = \<lparr>rid = ''room42'', rname = ''room42'', isPrivate = False, members = [''A''],
     createdBy = ''A'', createdAt = 0, roomEncryptionKey = None\<rparr>"

definition exampleManager :: chatManager where
  "exampleManager = \<lparr>currentRoom = Some 0, rooms = [(''room42'', 0)], heap = (\<lambda>ref. room42),
     isPrivateMode = False, encryptionKey = None, messageHistory = [],
     connectedUsers = [], myUserId = ''A'', myUsername = ''Alice'', transmitted = [],
     messageReceivedCalls = [], userLeftCalls = [], roomStateChangedCalls = []\<rparr>"

definition exampleChat :: chatDatagram where
  "exampleChat = \<lparr>messageId = ''m1'', roomId = ''room42'', fromUserId = ''B'',
     fromUsername = ''Bob'', content = ''hello'', messageType = ''text'', isEncrypted = False,
     timestamp = 1000\<rparr>"


text \<open>A peer \<open>B\<close> last seen at time 0, as an entry of each of the two user tables.\<close>

definition peerB :: discoveredUser where
  "peerB = \<lparr>hbType = ''heartbeat'', userId = ''B'', username = ''Bob'', hbTimestamp = 0,
     lastSeen = 0\<rparr>"

definition connectedB :: connectedUser where
  "connectedB = \<lparr>cuUserId = ''B'', cuUsername = ''Bob'', cuLastSeen = 0, isOnline = True\<rparr>"

text \<open>
  The example manager after \<open>togglePrivacyMode\<close> with the generated key \<open>k\<close>, and after a
  second \<open>togglePrivacyMode\<close>.
\<close>

definition privateManager :: chatManager where
  "privateManager = snd (togglePrivacyMode exampleManager ''k'' ''id1'' 5 6)"

definition publicAgain :: chatManager where
  "publicAgain = snd (togglePrivacyMode privateManager ''k2'' ''id3'' 8 9)"

text \<open>
  A payload that is itself the frame of the empty payload, and the packet that
  \<open>encodePacket\<close> builds of it.
\<close>

definition nestedPayload :: "byte list" where
  "nestedPayload = [1, 0, 1, 0, 1, 1, 0, 1, 0, 0]"

definition nestedPacket :: "byte list" where
  "nestedPacket = [1, 0, 1, 0, 1, 1, 0, 1, 10] @ nestedPayload @ [1]"


section \<open>Properties of the frame codec\<close>

lemma bit_push_bitAt:
  "bit (push_bit k (bitAt buf m)) n \<longleftrightarrow> n = k \<and> n < 8 \<and> m < length buf \<and> buf ! m"
  by (auto simp: bitAt_def bit_push_bit_iff bit_1_iff)

lemma foldl_or_bit:
  "bit (foldl (\<lambda>byte j. byte OR push_bit j (bitAt buf (s + j))) acc [0..<k]) n \<longleftrightarrow>
     bit acc n \<or> (n < k \<and> n < 8 \<and> s + n < length buf \<and> buf ! (s + n))"
proof (induction k)
  case 0 show ?case by simp
next
  case (Suc k)
  have "bit (foldl (\<lambda>byte j. byte OR push_bit j (bitAt buf (s + j))) acc [0..<Suc k]) n \<longleftrightarrow>
        bit (foldl (\<lambda>byte j. byte OR push_bit j (bitAt buf (s + j))) acc [0..<k]) n \<or>
        bit (push_bit k (bitAt buf (s + k))) n"
    by (simp add: bit_or_iff)
  also have "\<dots> \<longleftrightarrow> bit acc n \<or> (n < Suc k \<and> n < 8 \<and> s + n < length buf \<and> buf ! (s + n))"
    unfolding Suc bit_push_bitAt by (auto simp: less_Suc_eq)
  finally show ?case .
qed

lemma bit_readByte:
  "bit (readByte buf s) n \<longleftrightarrow> n < 8 \<and> s + n < length buf \<and> buf ! (s + n)"
  unfolding readByte_def by (simp add: foldl_or_bit)

lemma length_byteBits [simp]: "length (byteBits b) = 8"
  by (simp add: byteBits_def)

lemma length_createBitStream [simp]: "length (createBitStream bs) = 8 * length bs"
  by (induction bs) (simp_all add: createBitStream_def)

lemma createBitStream_Nil [simp]: "createBitStream [] = []"
  by (simp add: createBitStream_def)

lemma createBitStream_Cons: "createBitStream (b # bs) = byteBits b @ createBitStream bs"
  by (simp add: createBitStream_def)


lemma byteBits_nth: "j < 8 \<Longrightarrow> byteBits b ! j = bit b j"
  by (simp add: byteBits_def)

lemma createBitStream_nth:
  "i < length bs \<Longrightarrow> j < 8 \<Longrightarrow> createBitStream bs ! (8 * i + j) = bit (bs ! i) j"
proof (induction bs arbitrary: i)
  case Nil then show ?case by simp
next
  case (Cons b bs)
  show ?case
  proof (cases i)
    case 0
    with Cons.prems show ?thesis by (simp add: createBitStream_Cons nth_append byteBits_nth)
  next
    case (Suc i')
    with Cons.prems Cons.IH[of i'] show ?thesis
      by (simp add: createBitStream_Cons nth_append)
  qed
qed


lemma createBitStream_nth':
  assumes "t < 8 * length bs"
  shows "createBitStream bs ! t = bit (bs ! (t div 8)) (t mod 8)"
proof -
  have "t = 8 * (t div 8) + t mod 8" by simp
  moreover have "t div 8 < length bs" using assms by auto
  moreover have "t mod 8 < 8" by simp
  ultimately show ?thesis using createBitStream_nth by metis
qed

lemma readByte_eqI:
  assumes "s + 8 \<le> length buf" and "\<And>j. j < 8 \<Longrightarrow> buf ! (s + j) = bit b j"
  shows "readByte buf s = b"
proof (rule bit_eqI)
  fix n
  show "bit (readByte buf s) n = bit b n"
  proof (cases "n < 8")
    case True
    with assms show ?thesis by (simp add: bit_readByte)
  next
    case False
    then have "\<not> bit b n" using bit_imp_le_length[of b n] by auto
    with False show ?thesis by (simp add: bit_readByte)
  qed
qed

lemma readByte_stream:
  assumes "8 * i + 8 \<le> n" and "n \<le> 8 * length B"
  shows "readByte (take n (createBitStream B)) (8 * i) = B ! i"
proof (rule readByte_eqI)
  show "8 * i + 8 \<le> length (take n (createBitStream B))" using assms by simp
next
  fix j :: nat assume j: "j < 8"
  have "i < length B" using assms by auto
  with j assms show "take n (createBitStream B) ! (8 * i + j) = bit (B ! i) j"
    by (simp add: createBitStream_nth)
qed

lemma length_packetHeader: "length packetHeader = 8"
  by (simp add: packetHeader_def)

lemma matchHeader_stream:
  assumes "8 * k + 64 \<le> n" and "n \<le> 8 * length B"
  shows "matchHeader (take n (createBitStream B)) (8 * k) \<longleftrightarrow> take 8 (drop k B) = packetHeader"
proof -
  have len: "k + 8 \<le> length B" using assms by auto
  have rb: "readByte (take n (createBitStream B)) (8 * k + i * 8) = B ! (k + i)" if "i < 8" for i
  proof -
    have "8 * k + i * 8 = 8 * (k + i)" by simp
    moreover have "8 * (k + i) + 8 \<le> n" using that assms by auto
    ultimately show ?thesis using readByte_stream[OF _ assms(2), of "k + i"] by (simp add: mult.commute)
  qed
  have "matchHeader (take n (createBitStream B)) (8 * k) \<longleftrightarrow>
          (\<forall>i<8. readByte (take n (createBitStream B)) (8 * k + i * 8) = packetHeader ! i)"
    unfolding matchHeader_def list_all_iff by (auto simp: length_packetHeader)
  also have "\<dots> \<longleftrightarrow> (\<forall>i<8. B ! (k + i) = packetHeader ! i)"
    using rb by simp
  also have "\<dots> \<longleftrightarrow> take 8 (drop k B) = packetHeader"
    using len by (auto simp: list_eq_iff_nth_eq length_packetHeader min_def)
  finally show ?thesis .
qed

lemma readBytes_stream:
  assumes "8 * (k + m) \<le> n" and "n \<le> 8 * length B"
  shows "map (\<lambda>i. readByte (take n (createBitStream B)) (8 * k + i * 8)) [0..<m] = take m (drop k B)"
proof (rule nth_equalityI)
  show "length (map (\<lambda>i. readByte (take n (createBitStream B)) (8 * k + i * 8)) [0..<m]) =
        length (take m (drop k B))"
    using assms by auto
next
  fix i assume "i < length (map (\<lambda>i. readByte (take n (createBitStream B)) (8 * k + i * 8)) [0..<m])"
  then have i: "i < m" by simp
  have "8 * k + i * 8 = 8 * (k + i)" by simp
  moreover have "8 * (k + i) + 8 \<le> n" using i assms by auto
  ultimately have "readByte (take n (createBitStream B)) (8 * k + i * 8) = B ! (k + i)"
    using readByte_stream[OF _ assms(2), of "k + i"] by (simp add: mult.commute)
  moreover have "k + m \<le> length B" using assms by auto
  ultimately show "map (\<lambda>i. readByte (take n (createBitStream B)) (8 * k + i * 8)) [0..<m] ! i =
        take m (drop k B) ! i"
    using i by simp
qed

lemma extractPacket_stream:
  assumes "n \<le> 8 * length B"
  shows "extractPacket (take n (createBitStream B)) (8 * k) =
     (if 8 * k + 72 > n then None
      else if unat (B ! (k + 8)) > 32 then None
      else if 8 * (k + 10 + unat (B ! (k + 8))) > n then None
      else if last (take (10 + unat (B ! (k + 8))) (drop k B)) =
              calculateCRC (drop 9 (butlast (take (10 + unat (B ! (k + 8))) (drop k B))))
           then Some \<lparr>payload = drop 9 (butlast (take (10 + unat (B ! (k + 8))) (drop k B))),
                      plength = 10 + unat (B ! (k + 8))\<rparr>
           else None)"
proof -
  define buf where "buf = take n (createBitStream B)"
  define L where "L = unat (B ! (k + 8))"
  have lb: "length buf = n" using assms by (simp add: buf_def)
  show ?thesis
  proof (cases "8 * k + 72 > n")
    case True
    with lb show ?thesis
      unfolding buf_def[symmetric] by (simp add: extractPacket_def length_packetHeader)
  next
    case False
    then have "8 * (k + 8) + 8 \<le> n" by simp
    then have rL: "readByte buf (8 * k + 64) = B ! (k + 8)"
      using readByte_stream[OF _ assms, of "k + 8"] by (simp add: mult.commute buf_def)
    show ?thesis
    proof (cases "L > 32 \<or> 8 * (k + 10 + L) > n")
      case True
      with False rL lb show ?thesis
        unfolding buf_def[symmetric] L_def[symmetric]
        by (auto simp: extractPacket_def length_packetHeader maxPayloadLength_def Let_def L_def)
    next
      case ok: False
      then have "8 * (k + (10 + L)) \<le> n" by simp
      from readBytes_stream[OF this assms]
      have pb: "map (\<lambda>i. readByte buf (8 * k + i * 8)) [0..<10 + L] = take (10 + L) (drop k B)"
        by (simp add: buf_def)
      have len: "min (length B - k) (10 + L) = 10 + L" using ok assms by auto
      have "extractPacket buf (8 * k) =
          (if last (take (10 + L) (drop k B)) = calculateCRC (drop 9 (butlast (take (10 + L) (drop k B))))
           then Some \<lparr>payload = drop 9 (butlast (take (10 + L) (drop k B))), plength = 10 + L\<rparr>
           else None)"
        using False ok rL lb
        by (simp add: extractPacket_def length_packetHeader maxPayloadLength_def Let_def pb len
            L_def[symmetric] del: butlast_take)
      then show ?thesis
        using False ok unfolding buf_def[symmetric] L_def[symmetric] by simp
    qed
  qed
qed

lemma foldl_xor_acc:
  "foldl (\<lambda>crc b. crc XOR b) a xs = a XOR foldl (\<lambda>crc b. crc XOR b) (0::byte) xs"
proof (induction xs arbitrary: a)
  case Nil show ?case by simp
next
  case (Cons x xs)
  show ?case
    using Cons.IH[of "a XOR x"] Cons.IH[of "x"] by (simp add: xor.assoc)
qed

lemma calculateCRC_xor: "calculateCRC data = foldl (\<lambda>crc b. crc XOR b) 0 data"
proof -
  have "(0xFF :: byte) = - 1" by simp
  then show ?thesis unfolding calculateCRC_def by (metis and.right_neutral)
qed

lemma calculateCRC_Nil [simp]: "calculateCRC [] = 0"
  by (simp add: calculateCRC_xor)

lemma calculateCRC_Cons: "calculateCRC (x # xs) = x XOR calculateCRC xs"
  using foldl_xor_acc[of x xs] by (simp add: calculateCRC_xor)

lemma calculateCRC_append: "calculateCRC (xs @ ys) = calculateCRC xs XOR calculateCRC ys"
  by (induction xs) (simp_all add: calculateCRC_Cons xor.assoc)

lemma calculateCRC_update:
  "m < length q \<Longrightarrow> calculateCRC (q[m := q ! m XOR d]) = calculateCRC q XOR d"
proof (induction q arbitrary: m)
  case Nil then show ?case by simp
next
  case (Cons x q)
  show ?case
  proof (cases m)
    case 0
    then show ?thesis by (simp add: calculateCRC_Cons xor.assoc xor.commute xor.left_commute)
  next
    case (Suc m')
    with Cons show ?thesis by (simp add: calculateCRC_Cons xor.assoc)
  qed
qed

lemma unat_length_byte: "n \<le> 32 \<Longrightarrow> unat (of_nat n :: byte) = n"
  by (simp add: unat_of_nat)

lemma encodePacket_Inr:
  "encodePacket p = Inr packet \<longleftrightarrow>
     length p \<le> 32 \<and> packet = packetHeader @ [of_nat (length p)] @ p @ [calculateCRC p]"
  by (auto simp: encodePacket_def maxPayloadLength_def)

lemma extractPacket_frame:
  assumes "length p \<le> 32"
  shows "extractPacket (createBitStream (packetHeader @ [of_nat (length p)] @ p @ [calculateCRC p])) 0
         = Some \<lparr>payload = p, plength = 10 + length p\<rparr>"
proof -
  define B where "B = packetHeader @ [of_nat (length p)] @ p @ [calculateCRC p]"
  have lenB: "length B = 10 + length p" by (simp add: B_def length_packetHeader)
  have B8: "B ! 8 = of_nat (length p)" by (simp add: B_def nth_append length_packetHeader)
  have L: "unat (B ! 8) = length p" using assms by (simp add: B8 unat_length_byte)
  have bl: "drop 9 (butlast B) = p"
    by (simp add: B_def butlast_append length_packetHeader)
  have la: "last B = calculateCRC p" by (simp add: B_def)
  have "extractPacket (take (8 * length B) (createBitStream B)) (8 * 0)
        = Some \<lparr>payload = p, plength = 10 + length p\<rparr>"
    unfolding extractPacket_stream[OF order_refl]
    using assms by (simp add: L lenB bl la del: butlast_take)
  then show ?thesis by (simp add: B_def)
qed

lemma matchHeader_frame:
  "matchHeader (createBitStream (packetHeader @ rest)) 0"
proof -
  have "matchHeader (take (8 * length (packetHeader @ rest)) (createBitStream (packetHeader @ rest))) (8 * 0)"
    by (subst matchHeader_stream) (simp_all add: length_packetHeader)
  then show ?thesis by simp
qed

lemma tryDecodePacket_frame:
  assumes "length p \<le> 32"
  shows "tryDecodePacket (createBitStream (packetHeader @ [of_nat (length p)] @ p @ [calculateCRC p]))
         = ([], Some \<lparr>payload = p, plength = 10 + length p\<rparr>)"
proof -
  define buf where "buf = createBitStream (packetHeader @ [of_nat (length p)] @ p @ [calculateCRC p])"
  have len: "length buf = 80 + 8 * length p" by (simp add: buf_def length_packetHeader)
  have m: "matchHeader buf 0" unfolding buf_def by (rule matchHeader_frame)
  have e: "extractPacket buf 0 = Some \<lparr>payload = p, plength = 10 + length p\<rparr>"
    unfolding buf_def by (rule extractPacket_frame[OF assms])
  have "scanFrom buf 0 = Some (0, \<lparr>payload = p, plength = 10 + length p\<rparr>)"
    by (subst scanFrom.simps) (simp add: m e len length_packetHeader)
  then show ?thesis
    unfolding buf_def[symmetric] by (simp add: tryDecodePacket_def len length_packetHeader)
qed

lemma bit_pow2_byte: "bit (2 ^ j :: byte) n \<longleftrightarrow> n = j \<and> j < 8"
  by (auto simp: bit_exp_iff)

lemma flip_stream:
  assumes "k < 8 * length B"
  shows "(createBitStream B)[k := \<not> createBitStream B ! k]
         = createBitStream (B[k div 8 := B ! (k div 8) XOR push_bit (k mod 8) 1])"
proof (rule nth_equalityI)
  show "length ((createBitStream B)[k := \<not> createBitStream B ! k]) =
        length (createBitStream (B[k div 8 := B ! (k div 8) XOR push_bit (k mod 8) 1]))"
    by simp
next
  fix t assume "t < length ((createBitStream B)[k := \<not> createBitStream B ! k])"
  then have t: "t < 8 * length B" by simp
  then have td: "t div 8 < length B" by auto
  have kd: "k div 8 < length B" using assms by auto
  have m8: "t mod 8 < 8" by simp
  have lhs: "(createBitStream B)[k := \<not> createBitStream B ! k] ! t =
             (if t = k then \<not> bit (B ! (t div 8)) (t mod 8) else bit (B ! (t div 8)) (t mod 8))"
    using t assms by (simp add: nth_list_update createBitStream_nth')
  have rhs: "createBitStream (B[k div 8 := B ! (k div 8) XOR push_bit (k mod 8) 1]) ! t =
             bit ((B[k div 8 := B ! (k div 8) XOR push_bit (k mod 8) 1]) ! (t div 8)) (t mod 8)"
    using t by (simp add: createBitStream_nth')
  have eq: "t = k \<longleftrightarrow> t div 8 = k div 8 \<and> t mod 8 = k mod 8"
    by (metis div_mult_mod_eq)
  show "(createBitStream B)[k := \<not> createBitStream B ! k] ! t =
        createBitStream (B[k div 8 := B ! (k div 8) XOR push_bit (k mod 8) 1]) ! t"
    unfolding lhs rhs using td kd m8 eq
    by (auto simp: nth_list_update bit_xor_iff bit_pow2_byte)
qed

lemma push_bit_1_byte_neq_0: "j < 8 \<Longrightarrow> push_bit j (1::byte) \<noteq> 0"
proof
  assume j: "j < 8" and "push_bit j (1::byte) = 0"
  then have "bit (push_bit j (1::byte)) j = bit (0::byte) j" by simp
  with j show False by (simp add: bit_pow2_byte)
qed

lemma crc_check_fails_after_flip:
  assumes "m < length q" and "q \<noteq> []" and "last q = calculateCRC (butlast q)" and "j < 8"
  shows "last (q[m := q ! m XOR push_bit j 1]) \<noteq> calculateCRC (butlast (q[m := q ! m XOR push_bit j 1]))"
proof -
  define q' where "q' = q[m := q ! m XOR push_bit j 1]"
  have ne: "q' \<noteq> []" using assms by (simp add: q'_def)
  have all: "calculateCRC xs = calculateCRC (butlast xs) XOR last xs" if "xs \<noteq> []" for xs
  proof -
    have "xs = butlast xs @ [last xs]" using that by simp
    then have "calculateCRC xs = calculateCRC (butlast xs @ [last xs])" by simp
    then show ?thesis by (simp only: calculateCRC_append calculateCRC_Cons calculateCRC_Nil) simp
  qed
  have "calculateCRC q = 0" using all[OF assms(2)] assms(3) by simp
  then have "calculateCRC q' = push_bit j 1"
    unfolding q'_def using calculateCRC_update[OF assms(1)] by simp
  then have "calculateCRC (butlast q') XOR last q' \<noteq> 0"
    using all[OF ne] push_bit_1_byte_neq_0[OF assms(4)] by simp
  then show ?thesis unfolding q'_def[symmetric] by auto
qed

lemma extractPacket_flipped:
  assumes p: "length p \<le> 32" and k: "72 \<le> k" "k < 8 * (10 + length p)"
  shows "extractPacket
           ((createBitStream (packetHeader @ [of_nat (length p)] @ p @ [calculateCRC p]))
              [k := \<not> createBitStream (packetHeader @ [of_nat (length p)] @ p @ [calculateCRC p]) ! k]) 0
         = None"
proof -
  define q where "q = p @ [calculateCRC p]"
  define H where "H = packetHeader @ [of_nat (length p) :: byte]"
  define B where "B = H @ q"
  define m where "m = k div 8 - 9"
  define j where "j = k mod 8"
  define q' where "q' = q[m := q ! m XOR push_bit j 1]"
  have lenH: "length H = 9" by (simp add: H_def length_packetHeader)
  have lenq: "length q = length p + 1" by (simp add: q_def)
  have lenB: "length B = 10 + length p" by (simp add: B_def lenH lenq)
  have kd: "9 \<le> k div 8" "k div 8 < 10 + length p" using k by auto
  have m: "m < length q" using kd by (simp add: m_def lenq)
  have j: "j < 8" by (simp add: j_def)
  have Bk: "B ! (k div 8) = q ! m" using kd by (simp add: B_def nth_append lenH m_def)
  have upd: "B[k div 8 := B ! (k div 8) XOR push_bit (k mod 8) 1] = H @ q'"
    using kd by (simp add: B_def list_update_append lenH q'_def m_def j_def nth_append)
  have kB: "k < 8 * length B" using k by (simp add: lenB)
  define B' where "B' = H @ q'"
  have lenB': "length B' = 10 + length p" by (simp add: B'_def lenH q'_def lenq)
  have B8: "B' ! 8 = of_nat (length p)"
    by (simp add: B'_def H_def nth_append length_packetHeader)
  have L: "unat (B' ! 8) = length p" using p by (simp only: B8 unat_length_byte)
  have tk: "take (10 + length p) B' = B'" by (simp add: lenB')
  have bl: "drop 9 (butlast B') = butlast q'"
    using m by (simp add: B'_def butlast_append lenH q'_def)
  have "q' \<noteq> []" using m by (auto simp: q'_def)
  then have la: "last B' = last q'" by (simp add: B'_def)
  have bad: "last q' \<noteq> calculateCRC (butlast q')"
    unfolding q'_def by (rule crc_check_fails_after_flip[OF m _ _ j]) (simp_all add: q_def)
  have "extractPacket (take (8 * length B') (createBitStream B')) (8 * 0) = None"
    unfolding extractPacket_stream[OF order_refl]
    using p bad by (simp add: L lenB' tk bl la del: butlast_take)
  then have "extractPacket (createBitStream (H @ q')) 0 = None" by (simp add: B'_def)
  then have "extractPacket ((createBitStream B)[k := \<not> createBitStream B ! k]) 0 = None"
    by (simp only: flip_stream[OF kB] upd)
  then show ?thesis by (simp add: B_def H_def q_def)
qed

subsection \<open>The search loop and the bit-by-bit receiver\<close>






















lemma scanFrom_Some:
  "scanFrom buf i0 = Some (i, pk) \<Longrightarrow> i0 \<le> i \<and> matchHeader buf i \<and> extractPacket buf i = Some pk"
proof (induction buf i0 rule: scanFrom.induct)
  case (1 buf i0)
  from "1.prems" have guard: "i0 + length packetHeader * 8 \<le> length buf"
    by (subst (asm) scanFrom.simps) (simp split: if_splits)
  show ?case
  proof (cases "matchHeader buf i0")
    case m: True
    show ?thesis
    proof (cases "extractPacket buf i0")
      case None
      with "1.prems" guard m have "scanFrom buf (i0 + 8) = Some (i, pk)"
        by (subst (asm) scanFrom.simps) simp
      from "1.IH"(1)[OF guard m None this] show ?thesis by simp
    next
      case (Some q)
      with "1.prems" guard m have "i = i0" "pk = q"
        by (subst (asm) scanFrom.simps, simp)+
      with m Some show ?thesis by simp
    qed
  next
    case m: False
    with "1.prems" guard have "scanFrom buf (i0 + 8) = Some (i, pk)"
      by (subst (asm) scanFrom.simps) simp
    from "1.IH"(2)[OF guard m this] show ?thesis by simp
  qed
qed

lemma extractPacket_Some_length:
  assumes "extractPacket buf i = Some pk"
  shows "i + (10 + length (payload pk)) * 8 \<le> length buf"
proof -
  define L where "L = unat (readByte buf (i + 64))"
  from assms have fits: "i + (10 + L) * 8 \<le> length buf"
    and pl: "payload pk = drop 9 (butlast (map (\<lambda>j. readByte buf (i + j * 8)) [0..<10 + L]))"
    unfolding L_def
    by (auto simp: extractPacket_def length_packetHeader Let_def split: if_splits)
  have "length (payload pk) = L" by (simp add: pl)
  with fits show ?thesis by simp
qed

lemma tryDecodePacket_Some:
  assumes "tryDecodePacket buf = (buf', Some pk)"
  shows "\<exists>i. extractPacket buf i = Some pk"
proof -
  from assms obtain i where "scanFrom buf 0 = Some (i, pk)"
    by (auto simp: tryDecodePacket_def split: if_splits option.splits)
  from scanFrom_Some[OF this] show ?thesis by blast
qed

section \<open>Properties of the cipher and of the chat manager\<close>

lemma hexDigit_props:
  "\<forall>n\<in>set [0..<16]. hexValue (hexDigit n) = Some n \<and> \<not> isWhiteSpace (hexDigit n)
      \<and> \<not> isLineTerminator (hexDigit n) \<and> hexDigit n \<noteq> CHR ''+'' \<and> hexDigit n \<noteq> CHR ''-''
      \<and> hexDigit n \<noteq> CHR ''x'' \<and> hexDigit n \<noteq> CHR ''X''"
  by code_simp

lemma hexDigit_ok:
  assumes "n < 16"
  shows "hexValue (hexDigit n) = Some n" "\<not> isWhiteSpace (hexDigit n)"
    "\<not> isLineTerminator (hexDigit n)" "hexDigit n \<noteq> CHR ''+''" "hexDigit n \<noteq> CHR ''-''"
    "hexDigit n \<noteq> CHR ''x''" "hexDigit n \<noteq> CHR ''X''"
  using hexDigit_props assms by auto

lemma hex2_eq:
  "padStart2 (toString16 b) = [hexDigit (unat b div 16), hexDigit (unat b mod 16)]"
  by (simp add: padStart2_def toString16_def hexDigit_def)

lemma parseInt16_hex:
  assumes "hi < 16" and "lo < 16"
  shows "parseInt16 [hexDigit hi, hexDigit lo] = Some (int (16 * hi + lo))"
  using hexDigit_ok[OF assms(1)] hexDigit_ok[OF assms(2)]
  by (simp add: parseInt16_def Let_def)

lemma toUint8_parse_hex2: "toUint8 (parseInt16 (padStart2 (toString16 b))) = b"
proof -
  have hi: "unat b div 16 < 16" using unsigned_less[of b, where 'a = nat] by simp
  have lo: "unat b mod 16 < 16" by simp
  have "16 * (unat b div 16) + unat b mod 16 = unat b" by simp
  then show ?thesis
    unfolding hex2_eq parseInt16_hex[OF hi lo] by (simp add: toUint8_def)
qed

lemma matchPairs_hex:
  "matchPairs (concat (map (\<lambda>b. padStart2 (toString16 b)) bs))
   = map (\<lambda>b. padStart2 (toString16 b)) bs"
proof (induction bs)
  case Nil show ?case by simp
next
  case (Cons b bs)
  have hi: "unat b div 16 < 16" using unsigned_less[of b, where 'a = nat] by simp
  have lo: "unat b mod 16 < 16" by simp
  show ?case
    using Cons hexDigit_ok(3)[OF hi] hexDigit_ok(3)[OF lo] by (simp add: hex2_eq)
qed

lemma xor_key_twice:
  "map (\<lambda>i. map (\<lambda>i. mb ! i XOR keyByteAt kb i) [0..<length mb] ! i XOR keyByteAt kb i)
     [0..<length mb] = mb"
  by (rule nth_equalityI) (simp_all add: xor.assoc)

lemma decryptMessage_matched:
  assumes "matchPairs hex = ms" and "ms \<noteq> []"
  shows "decryptMessage enc dec hex k =
           Inr (dec (map (\<lambda>i. map (\<lambda>h. toUint8 (parseInt16 h)) ms ! i XOR keyByteAt (enc k) i)
                       [0..<length (map (\<lambda>h. toUint8 (parseInt16 h)) ms)]))"
proof -
  from assms(2) obtain x xs where "ms = x # xs" by (cases ms) auto
  then show ?thesis
    unfolding decryptMessage_def assms(1) by (simp only: list.case Let_def)
qed

lemma decrypt_encrypt:
  assumes "enc m \<noteq> []"
  shows "decryptMessage enc dec (encryptMessage enc m k) k = Inr (dec (enc m))"
proof -
  define cs where "cs = map (\<lambda>i. enc m ! i XOR keyByteAt (enc k) i) [0..<length (enc m)]"
  have ne: "map (\<lambda>b. padStart2 (toString16 b)) cs \<noteq> []" using assms by (simp add: cs_def)
  have parsed: "map (\<lambda>h. toUint8 (parseInt16 h)) (map (\<lambda>b. padStart2 (toString16 b)) cs) = cs"
    by (simp add: toUint8_parse_hex2 comp_def)
  have len: "length cs = length (enc m)" by (simp add: cs_def)
  have "decryptMessage enc dec (concat (map (\<lambda>b. padStart2 (toString16 b)) cs)) k
        = Inr (dec (map (\<lambda>i. cs ! i XOR keyByteAt (enc k) i) [0..<length cs]))"
    unfolding decryptMessage_matched[OF matchPairs_hex ne] parsed ..
  also have "map (\<lambda>i. cs ! i XOR keyByteAt (enc k) i) [0..<length cs] = enc m"
    unfolding len unfolding cs_def by (rule xor_key_twice)
  finally show ?thesis
    by (simp add: encryptMessage_def Let_def cs_def)
qed

lemma length_encryptMessage: "length (encryptMessage enc text k) = 2 * length (enc text)"
proof -
  have "length (concat (map (\<lambda>b. padStart2 (toString16 b)) bs)) = 2 * length bs" for bs
    by (induction bs) (simp_all add: hex2_eq)
  then show ?thesis unfolding encryptMessage_def Let_def by (simp only: length_map length_upt)
qed

lemma encryptMessage_neq_text:
  assumes "text \<noteq> []" and "length text \<le> length (enc text)"
  shows "encryptMessage enc text k \<noteq> text"
proof
  assume "encryptMessage enc text k = text"
  then have "length (encryptMessage enc text k) = length text" by simp
  moreover have "0 < length text" using assms(1) by simp
  ultimately show False using assms(2) by (simp add: length_encryptMessage)
qed

lemma toggle_enter_private:
  fixes s :: chatManager and newKey newId :: string and nowKey nowMessage :: int
  assumes "currentRoom s = Some ref" and "\<not> isPrivateMode s"
  defines "s' \<equiv> snd (togglePrivacyMode s newKey newId nowKey nowMessage)"
  shows "fst (togglePrivacyMode s newKey newId nowKey nowMessage) = True"
    and "isPrivateMode s'" and "currentRoom s' = Some ref" and "isPrivate (heap s' ref)"
    and "encryptionKey s' = Some newKey" and "roomEncryptionKey (heap s' ref) = Some newKey"
    and "rid (heap s' ref) = rid (heap s ref)" and "myUserId s' = myUserId s"
    and "myUsername s' = myUsername s"
    and "transmitted s' = transmitted s @
           (if newKey \<noteq> [] then [PrivateKey (rid (heap s ref)) newKey (myUserId s) nowKey] else [])"
    and "messageReceivedCalls s' = messageReceivedCalls s @ [SystemMessage newId textSwitchedPrivate nowMessage]"
    and "messageHistory s' = messageHistory (addMessage s (SystemMessage newId textSwitchedPrivate nowMessage))"
  using assms(1,2) unfolding s'_def
  by (simp_all add: togglePrivacyMode_def updateCurrentRoom_def distributeEncryptionKey_def
      addSystemMessage_def addMessage_def currentRoomObject_def truthy_def Let_def)

lemma toggle_back_public:
  fixes s :: chatManager and newKey newId :: string and nowKey nowMessage :: int
  assumes "currentRoom s = Some ref" and "isPrivateMode s"
  defines "s' \<equiv> snd (togglePrivacyMode s newKey newId nowKey nowMessage)"
  shows "fst (togglePrivacyMode s newKey newId nowKey nowMessage) = False"
    and "\<not> isPrivateMode s'" and "currentRoom s' = Some ref" and "\<not> isPrivate (heap s' ref)"
    and "encryptionKey s' = None" and "roomEncryptionKey (heap s' ref) = None"
    and "rid (heap s' ref) = rid (heap s ref)" and "myUserId s' = myUserId s"
    and "myUsername s' = myUsername s"
    and "transmitted s' = transmitted s"
    and "messageReceivedCalls s' = messageReceivedCalls s @ [SystemMessage newId textSwitchedPublic nowMessage]"
    and "messageHistory s' = messageHistory (addMessage s (SystemMessage newId textSwitchedPublic nowMessage))"
  using assms(1,2) unfolding s'_def
  by (simp_all add: togglePrivacyMode_def updateCurrentRoom_def distributeEncryptionKey_def
      addSystemMessage_def addMessage_def currentRoomObject_def truthy_def Let_def)

lemma sendMessage_result:
  assumes "currentRoom s = Some ref"
  shows "\<exists>s'. sendMessage enc s text type newId now =
            Inr (\<lparr>messageId = newId, roomId = rid (heap s ref), fromUserId = myUserId s,
                  fromUsername = myUsername s,
                  content = (if isPrivateMode s \<and> truthy (encryptionKey s)
                             then encryptMessage enc text (the (encryptionKey s)) else text),
                  messageType = type, isEncrypted = isPrivateMode s, timestamp = now\<rparr>, s')
          \<and> transmitted s' = transmitted s @
               [Chat \<lparr>messageId = newId, roomId = rid (heap s ref), fromUserId = myUserId s,
                  fromUsername = myUsername s,
                  content = (if isPrivateMode s \<and> truthy (encryptionKey s)
                             then encryptMessage enc text (the (encryptionKey s)) else text),
                  messageType = type, isEncrypted = isPrivateMode s, timestamp = now\<rparr>]
          \<and> isPrivateMode s' = isPrivateMode s \<and> encryptionKey s' = encryptionKey s
          \<and> currentRoom s' = currentRoom s \<and> heap s' = heap s"
  using assms
  by (simp add: sendMessage_def currentRoomObject_def addMessage_def Let_def)

section \<open>Claims about the frame codec\<close>

text \<open>
  C1 (frame round-trip).  For every payload \<open>p\<close> of at most 32 bytes, \<open>encodePacket\<close>
  succeeds, and with the bits of \<open>createBitStream\<close> of the packet in the bit buffer, the
  decoder extracts at offset 0 exactly the payload \<open>p\<close> (with the packet length
  \<open>10 + |p|\<close>), and one run of \<open>tryDecodePacket\<close> hands over this one packet and leaves
  the buffer empty, so that no second frame comes out of these bits.
\<close>

theorem frame_roundtrip:
  assumes "length p \<le> 32"
  shows "\<exists>packet. encodePacket p = Inr packet
           \<and> extractPacket (createBitStream packet) 0 = Some \<lparr>payload = p, plength = 10 + length p\<rparr>
           \<and> tryDecodePacket (createBitStream packet)
               = ([], Some \<lparr>payload = p, plength = 10 + length p\<rparr>)"
  using assms extractPacket_frame[OF assms] tryDecodePacket_frame[OF assms]
  by (simp add: encodePacket_def maxPayloadLength_def)

theorem frame_roundtrip_witness:
  "length [0x68, 0x69 :: byte] \<le> 32
   \<and> (\<exists>packet. encodePacket [0x68, 0x69] = Inr packet
           \<and> extractPacket (createBitStream packet) 0
               = Some \<lparr>payload = [0x68, 0x69], plength = 10 + length [0x68, 0x69 :: byte]\<rparr>
           \<and> tryDecodePacket (createBitStream packet)
               = ([], Some \<lparr>payload = [0x68, 0x69], plength = 10 + length [0x68, 0x69 :: byte]\<rparr>))"
  using frame_roundtrip[of "[0x68, 0x69]"] by simp

text \<open>
  C2 (length bound).  \<open>encodePacket\<close> refuses every payload longer than 32 bytes with an
  error; the bit stream of every packet it returns has at most \<open>(10 + 32) * 8 = 336\<close>
  bits; and on the receiving side a candidate at offset \<open>i\<close> whose length byte (the
  byte read 64 bits after \<open>i\<close>) exceeds 32 yields no packet from \<open>extractPacket\<close>, which
  returns before any packet bytes are collected, and the search loop goes on with the
  next candidate \<open>i + 8\<close>.
\<close>

theorem length_bound:
  "(length p > 32 \<longrightarrow> encodePacket p = Inl PayloadTooLarge)
   \<and> (encodePacket q = Inr packet \<longrightarrow> length (createBitStream packet) \<le> 336)
   \<and> (unat (readByte buf (i + 64)) > 32 \<longrightarrow>
        extractPacket buf i = None
        \<and> (i + 64 \<le> length buf \<longrightarrow> scanFrom buf i = scanFrom buf (i + 8)))"
proof (intro conjI impI)
  assume "length p > 32"
  then show "encodePacket p = Inl PayloadTooLarge"
    by (simp add: encodePacket_def maxPayloadLength_def)
next
  assume "encodePacket q = Inr packet"
  then show "length (createBitStream packet) \<le> 336"
    by (auto simp: encodePacket_Inr length_packetHeader)
next
  assume big: "unat (readByte buf (i + 64)) > 32"
  then show none: "extractPacket buf i = None"
    by (simp add: extractPacket_def length_packetHeader maxPayloadLength_def Let_def)
  assume "i + 64 \<le> length buf"
  then show "scanFrom buf i = scanFrom buf (i + 8)"
    by (subst scanFrom.simps) (simp add: none length_packetHeader)
qed

theorem length_bound_witness:
  "length (replicate 33 (0::byte)) > 32
   \<and> encodePacket (replicate 33 0) = Inl PayloadTooLarge
   \<and> encodePacket [] = Inr [1, 0, 1, 0, 1, 1, 0, 1, 0, 0]
   \<and> length (createBitStream [1, 0, 1, 0, 1, 1, 0, 1, 0, 0]) \<le> 336
   \<and> unat (readByte (createBitStream [1, 0, 1, 0, 1, 1, 0, 1, 0x7F, 0]) (0 + 64)) > 32
   \<and> extractPacket (createBitStream [1, 0, 1, 0, 1, 1, 0, 1, 0x7F, 0]) 0 = None
   \<and> 0 + 64 \<le> length (createBitStream [1, 0, 1, 0, 1, 1, 0, 1, 0x7F, 0])
   \<and> scanFrom (createBitStream [1, 0, 1, 0, 1, 1, 0, 1, 0x7F, 0]) 0
       = scanFrom (createBitStream [1, 0, 1, 0, 1, 1, 0, 1, 0x7F, 0]) (0 + 8)"
proof -
  have h1: "length (replicate 33 (0::byte)) > 32" by simp
  have h2: "encodePacket [] = Inr [1, 0, 1, 0, 1, 1, 0, 1, 0, 0]" by code_simp
  have h3: "unat (readByte (createBitStream [1, 0, 1, 0, 1, 1, 0, 1, 0x7F, 0]) (0 + 64)) > 32"
    by code_simp
  have h4: "0 + 64 \<le> length (createBitStream [1, 0, 1, 0, 1, 1, 0, 1, 0x7F, 0])" by simp
  show ?thesis
    using length_bound[of "replicate 33 0" "[]" "[1, 0, 1, 0, 1, 1, 0, 1, 0, 0]"
        "createBitStream [1, 0, 1, 0, 1, 1, 0, 1, 0x7F, 0]" 0] h1 h2 h3 h4
    by blast
qed

text \<open>
  C4 (checksum coverage).  In the bit stream of an encoded frame, the payload and
  checksum bytes occupy the bits from index 72 on.  Inverting any single one of these
  bits makes \<open>extractPacket\<close> reject the frame: the length byte is intact, so the same
  bytes are read, and the XOR check fails.  Whatever \<open>tryDecodePacket\<close> then finds in the
  buffer has a shorter payload than the frame, so it is not the corrupted payload.
\<close>

theorem checksum_coverage:
  assumes "encodePacket p = Inr packet"
    and "72 \<le> k" and "k < length (createBitStream packet)"
  shows "extractPacket ((createBitStream packet)[k := \<not> createBitStream packet ! k]) 0 = None
    \<and> (\<forall>pk. snd (tryDecodePacket ((createBitStream packet)[k := \<not> createBitStream packet ! k]))
                = Some pk \<longrightarrow> length (payload pk) < length p)"
proof -
  define flipped where "flipped = (createBitStream packet)[k := \<not> createBitStream packet ! k]"
  from assms(1) have p: "length p \<le> 32"
    and packet: "packet = packetHeader @ [of_nat (length p)] @ p @ [calculateCRC p]"
    by (simp_all add: encodePacket_Inr)
  have len: "length flipped = 8 * (10 + length p)"
    by (simp add: flipped_def packet length_packetHeader)
  from assms(3) have "k < 8 * (10 + length p)"
    by (simp add: packet length_packetHeader)
  from extractPacket_flipped[OF p assms(2) this] have none: "extractPacket flipped 0 = None"
    by (simp only: packet flipped_def)
  have "length (payload pk) < length p" if "snd (tryDecodePacket flipped) = Some pk" for pk
  proof -
    from that have "tryDecodePacket flipped = (fst (tryDecodePacket flipped), Some pk)"
      by (simp add: prod_eq_iff)
    from tryDecodePacket_Some[OF this] obtain i where i: "extractPacket flipped i = Some pk"
      by blast
    with none have "i \<noteq> 0" by (cases "i = 0") auto
    with extractPacket_Some_length[OF i] len show ?thesis by simp
  qed
  with none show ?thesis unfolding flipped_def by blast
qed

theorem checksum_coverage_witness:
  "encodePacket nestedPayload = Inr nestedPacket
   \<and> (72::nat) \<le> 152
   \<and> 152 < length (createBitStream nestedPacket)
   \<and> extractPacket ((createBitStream nestedPacket)[152 := \<not> createBitStream nestedPacket ! 152]) 0
       = None
   \<and> snd (tryDecodePacket ((createBitStream nestedPacket)[152 := \<not> createBitStream nestedPacket ! 152]))
       = Some \<lparr>payload = [], plength = 10\<rparr>
   \<and> length (payload \<lparr>payload = [], plength = 10\<rparr>) < length nestedPayload"
proof -
  have h1: "encodePacket nestedPayload = Inr nestedPacket" by code_simp
  have h2: "(72::nat) \<le> 152" by simp
  have h3: "152 < length (createBitStream nestedPacket)" by (simp add: nestedPacket_def nestedPayload_def)
  have h4: "snd (tryDecodePacket ((createBitStream nestedPacket)[152 := \<not> createBitStream nestedPacket ! 152]))
       = Some \<lparr>payload = [], plength = 10\<rparr>"
    by code_simp
  show ?thesis
    using checksum_coverage[OF h1 h2 h3] h1 h2 h3 h4 by blast
qed




section \<open>Claims about the cipher\<close>

text \<open>
  C5 (cipher round-trip and literal value), as the code has it.  With the platform's
  UTF-8 encoder \<open>enc\<close> and decoder \<open>dec\<close>: for every message \<open>m\<close> that has at least one
  byte and that \<open>dec\<close> gives back from its bytes, and for every key \<open>k\<close>, decrypting the
  encryption of \<open>m\<close> under \<open>k\<close> returns \<open>m\<close>.  \<open>encryptMessage\<close> XORs the bytes of the
  message with the bytes of the key, cycled, and writes each result as two lower-case
  hexadecimal digits: with the bytes \<open>0x68 0x69\<close> for \<open>hi\<close> and \<open>0x6B\<close> for \<open>k\<close>, the
  encryption of \<open>hi\<close> under \<open>k\<close> is \<open>0302\<close>.
\<close>

theorem cipher_roundtrip:
  "(enc m \<noteq> [] \<and> dec (enc m) = m \<longrightarrow>
      decryptMessage enc dec (encryptMessage enc m k) k = Inr m)
   \<and> (enc ''hi'' = [0x68, 0x69] \<and> enc ''k'' = [0x6B] \<longrightarrow>
        encryptMessage enc ''hi'' ''k'' = ''0302'')"
proof (intro conjI impI)
  assume "enc m \<noteq> [] \<and> dec (enc m) = m"
  then show "decryptMessage enc dec (encryptMessage enc m k) k = Inr m"
    using decrypt_encrypt[of enc m dec k] by simp
next
  assume "enc ''hi'' = [0x68, 0x69] \<and> enc ''k'' = [0x6B]"
  then show "encryptMessage enc ''hi'' ''k'' = ''0302''"
    by (simp add: encryptMessage_def Let_def keyByteAt_def toString16_def padStart2_def
        hexDigit_def upt_rec[of 0] upt_rec[of 1])
qed

theorem cipher_roundtrip_witness:
  "asciiBytes ''hi'' \<noteq> [] \<and> asciiText (asciiBytes ''hi'') = ''hi''
   \<and> decryptMessage asciiBytes asciiText (encryptMessage asciiBytes ''hi'' ''k'') ''k'' = Inr ''hi''
   \<and> asciiBytes ''hi'' = [0x68, 0x69] \<and> asciiBytes ''k'' = [0x6B]
   \<and> encryptMessage asciiBytes ''hi'' ''k'' = ''0302''"
proof -
  have h1: "asciiBytes ''hi'' \<noteq> [] \<and> asciiText (asciiBytes ''hi'') = ''hi''"
    by code_simp
  have h2: "asciiBytes ''hi'' = [0x68, 0x69] \<and> asciiBytes ''k'' = [0x6B]"
    by (simp add: asciiBytes_def)
  show ?thesis
    using cipher_roundtrip[of asciiBytes "''hi''" asciiText "''k''"] h1 h2 by blast
qed


text \<open>
  The claim as stated fails for the empty message: its encryption is the empty string,
  on which \<open>match\<close> finds nothing, and \<open>decryptMessage\<close> throws instead of returning the
  message.
\<close>

theorem cipher_roundtrip_counterexample:
  "asciiBytes '''' = [] \<and> asciiText [] = ''''
   \<and> encryptMessage asciiBytes '''' ''k'' = ''''
   \<and> decryptMessage asciiBytes asciiText (encryptMessage asciiBytes '''' ''k'') ''k'' = Inl TypeError"
  by (simp add: asciiBytes_def asciiText_def encryptMessage_def decryptMessage_def)


section \<open>Claims about the peer table and the chat manager\<close>

text \<open>
  C7 (self-loopback suppression).  A heartbeat or discovery datagram whose \<open>userId\<close> is
  the device's own leaves the whole state of \<open>UltrasonicComm\<close> unchanged: nothing is
  put into \<open>discoveredUsers\<close> and \<open>onUserDetected\<close> is not called.  A chat datagram
  whose \<open>fromUserId\<close> is the own user id leaves the whole state of the \<open>ChatManager\<close>
  unchanged: nothing is added to the history and \<open>onMessageReceived\<close> is not called.
\<close>

theorem self_loopback:
  "(userId data = commUserId c \<longrightarrow>
      handleHeartbeat c data now = c \<and> handleDiscovery c data now = c)
   \<and> (fromUserId d = myUserId s \<longrightarrow> handleChatMessage enc dec s d = s)"
  by (simp add: handleHeartbeat_def handleDiscovery_def handleChatMessage_def split: option.splits)

theorem self_loopback_witness:
  "userId \<lparr>hbType = ''heartbeat'', userId = ''A'', username = ''Alice'', hbTimestamp = 3000\<rparr>
     = commUserId \<lparr>commUserId = ''A'', discoveredUsers = [], userDetectedCalls = []\<rparr>
   \<and> handleHeartbeat \<lparr>commUserId = ''A'', discoveredUsers = [], userDetectedCalls = []\<rparr>
        \<lparr>hbType = ''heartbeat'', userId = ''A'', username = ''Alice'', hbTimestamp = 3000\<rparr> 3500
       = \<lparr>commUserId = ''A'', discoveredUsers = [], userDetectedCalls = []\<rparr>
   \<and> handleDiscovery \<lparr>commUserId = ''A'', discoveredUsers = [], userDetectedCalls = []\<rparr>
        \<lparr>hbType = ''heartbeat'', userId = ''A'', username = ''Alice'', hbTimestamp = 3000\<rparr> 3500
       = \<lparr>commUserId = ''A'', discoveredUsers = [], userDetectedCalls = []\<rparr>
   \<and> fromUserId (exampleChat\<lparr>fromUserId := ''A''\<rparr>) = myUserId exampleManager
   \<and> handleChatMessage asciiBytes asciiText exampleManager (exampleChat\<lparr>fromUserId := ''A''\<rparr>)
       = exampleManager"
proof -
  have h1: "userId \<lparr>hbType = ''heartbeat'', userId = ''A'', username = ''Alice'', hbTimestamp = 3000\<rparr>
     = commUserId \<lparr>commUserId = ''A'', discoveredUsers = [], userDetectedCalls = []\<rparr>"
    by simp
  have h2: "fromUserId (exampleChat\<lparr>fromUserId := ''A''\<rparr>) = myUserId exampleManager"
    by (simp add: exampleManager_def)
  show ?thesis
    using self_loopback[of "\<lparr>hbType = ''heartbeat'', userId = ''A'', username = ''Alice'', hbTimestamp = 3000\<rparr>"
        "\<lparr>commUserId = ''A'', discoveredUsers = [], userDetectedCalls = []\<rparr>" 3500
        "exampleChat\<lparr>fromUserId := ''A''\<rparr>" exampleManager asciiBytes asciiText] h1 h2
    by blast
qed

text \<open>
  C10 (toggle without a room).  While \<open>currentRoom\<close> is \<open>null\<close>, \<open>togglePrivacyMode\<close>
  returns \<open>false\<close> and leaves the whole state unchanged: \<open>isPrivateMode\<close>, the key, the
  rooms, the history, and the lists of transmitted datagrams and of delivered messages.
\<close>

theorem toggle_without_room:
  assumes "currentRoom s = None"
  shows "togglePrivacyMode s newKey newId nowKey nowMessage = (False, s)"
  using assms by (simp add: togglePrivacyMode_def)

theorem toggle_without_room_witness:
  "currentRoom (exampleManager\<lparr>currentRoom := None\<rparr>) = None
   \<and> togglePrivacyMode (exampleManager\<lparr>currentRoom := None\<rparr>) ''k'' ''id1'' 5 6
       = (False, exampleManager\<lparr>currentRoom := None\<rparr>)"
  using toggle_without_room[of "exampleManager\<lparr>currentRoom := None\<rparr>" "''k''" "''id1''" 5 6]
  by simp


text \<open>
  C6 (privacy toggle), as the code has it.  Let a room be active and let its \<open>isPrivate\<close>
  flag agree with \<open>isPrivateMode\<close>, as \<open>createOrJoinRoom\<close>, \<open>acceptInvite\<close> and
  \<open>handlePrivateKey\<close> set them.  Then
  \<open>togglePrivacyMode\<close> inverts the flag of the room and \<open>isPrivateMode\<close>, returns the new
  mode, and posts a system message to the history and to \<open>onMessageReceived\<close>.  On
  entering private mode the generated key becomes the key of the manager and of the
  room, and, when the key is not the empty string, a \<open>private_key\<close> datagram with it is
  handed to \<open>transmitData\<close>; afterwards \<open>sendMessage\<close> hands over a chat datagram with
  \<open>isEncrypted = true\<close>, leaves the mode and the key as they are, and, when the key is
  not the empty string, the content is \<open>encryptMessage\<close> of the text, which differs from
  the text whenever the text is not empty (its encoding has at least as many bytes as
  the text has code units).  On leaving private mode the key is cleared, nothing is
  transmitted, and \<open>sendMessage\<close> hands over a chat datagram with \<open>isEncrypted = false\<close>
  and the text itself as content.
\<close>

theorem privacy_toggle:
  assumes room: "currentRoom s = Some ref"
    and inv: "isPrivate (heap s ref) = isPrivateMode s"
    and toggle: "togglePrivacyMode s newKey newId nowKey nowMessage = (res, s')"
    and send: "sendMessage enc s' text type sendId now = out"
  shows "isPrivate (heap s' ref) = (\<not> isPrivate (heap s ref))
    \<and> isPrivateMode s' = isPrivate (heap s' ref) \<and> res = isPrivateMode s'
    \<and> currentRoom s' = Some ref
    \<and> messageReceivedCalls s' = messageReceivedCalls s @
          [SystemMessage newId
             (if isPrivateMode s' then textSwitchedPrivate else textSwitchedPublic) nowMessage]
    \<and> messageHistory s' = messageHistory (addMessage s
          (SystemMessage newId
             (if isPrivateMode s' then textSwitchedPrivate else textSwitchedPublic) nowMessage))
    \<and> (isPrivateMode s' \<longrightarrow>
          encryptionKey s' = Some newKey
          \<and> roomEncryptionKey (heap s' ref) = Some newKey
          \<and> (newKey \<noteq> [] \<longrightarrow>
                transmitted s' = transmitted s
                   @ [PrivateKey (rid (heap s ref)) newKey (myUserId s) nowKey])
          \<and> (\<exists>msg s''. out = Inr (msg, s'') \<and> isEncrypted msg
                \<and> transmitted s'' = transmitted s' @ [Chat msg]
                \<and> isPrivateMode s'' \<and> encryptionKey s'' = Some newKey
                \<and> (newKey \<noteq> [] \<longrightarrow>
                      content msg = encryptMessage enc text newKey
                      \<and> (text \<noteq> [] \<and> length text \<le> length (enc text) \<longrightarrow> content msg \<noteq> text))))
    \<and> (\<not> isPrivateMode s' \<longrightarrow>
          encryptionKey s' = None
          \<and> roomEncryptionKey (heap s' ref) = None
          \<and> transmitted s' = transmitted s
          \<and> (\<exists>msg s''. out = Inr (msg, s'') \<and> \<not> isEncrypted msg \<and> content msg = text
                \<and> transmitted s'' = transmitted s' @ [Chat msg]
                \<and> \<not> isPrivateMode s'' \<and> encryptionKey s'' = None))"
proof (cases "isPrivateMode s")
  case False
  have s': "s' = snd (togglePrivacyMode s newKey newId nowKey nowMessage)"
    and res: "res = fst (togglePrivacyMode s newKey newId nowKey nowMessage)"
    using toggle by simp_all
  note t = toggle_enter_private[OF room False, of newKey newId nowKey nowMessage, folded s' res]
  from sendMessage_result[OF t(3), of enc "text" "type" sendId now] send
  obtain s'' where out: "out = Inr (\<lparr>messageId = sendId, roomId = rid (heap s' ref),
        fromUserId = myUserId s', fromUsername = myUsername s',
        content = (if isPrivateMode s' \<and> truthy (encryptionKey s')
                   then encryptMessage enc text (the (encryptionKey s')) else text),
        messageType = type, isEncrypted = isPrivateMode s', timestamp = now\<rparr>, s'')"
    and tr: "transmitted s'' = transmitted s' @
       [Chat \<lparr>messageId = sendId, roomId = rid (heap s' ref),
        fromUserId = myUserId s', fromUsername = myUsername s',
        content = (if isPrivateMode s' \<and> truthy (encryptionKey s')
                   then encryptMessage enc text (the (encryptionKey s')) else text),
        messageType = type, isEncrypted = isPrivateMode s', timestamp = now\<rparr>]"
    and keep: "isPrivateMode s'' = isPrivateMode s'" "encryptionKey s'' = encryptionKey s'"
    by auto
  have neq: "text \<noteq> [] \<and> length text \<le> length (enc text) \<longrightarrow> encryptMessage enc text newKey \<noteq> text"
    using encryptMessage_neq_text[of "text" enc newKey] by blast
  show ?thesis
    using False inv t out tr keep neq by (auto simp: truthy_def)
next
  case True
  have s': "s' = snd (togglePrivacyMode s newKey newId nowKey nowMessage)"
    and res: "res = fst (togglePrivacyMode s newKey newId nowKey nowMessage)"
    using toggle by simp_all
  note t = toggle_back_public[OF room True, of newKey newId nowKey nowMessage, folded s' res]
  from sendMessage_result[OF t(3), of enc "text" "type" sendId now] send
  obtain s'' where out: "out = Inr (\<lparr>messageId = sendId, roomId = rid (heap s' ref),
        fromUserId = myUserId s', fromUsername = myUsername s',
        content = (if isPrivateMode s' \<and> truthy (encryptionKey s')
                   then encryptMessage enc text (the (encryptionKey s')) else text),
        messageType = type, isEncrypted = isPrivateMode s', timestamp = now\<rparr>, s'')"
    and tr: "transmitted s'' = transmitted s' @
       [Chat \<lparr>messageId = sendId, roomId = rid (heap s' ref),
        fromUserId = myUserId s', fromUsername = myUsername s',
        content = (if isPrivateMode s' \<and> truthy (encryptionKey s')
                   then encryptMessage enc text (the (encryptionKey s')) else text),
        messageType = type, isEncrypted = isPrivateMode s', timestamp = now\<rparr>]"
    and keep: "isPrivateMode s'' = isPrivateMode s'" "encryptionKey s'' = encryptionKey s'"
    by auto
  show ?thesis
    using True inv t out tr keep by (auto simp: truthy_def)
qed


theorem privacy_toggle_witness:
  "currentRoom exampleManager = Some 0
   \<and> isPrivate (heap exampleManager 0) = isPrivateMode exampleManager
   \<and> togglePrivacyMode exampleManager ''k'' ''id1'' 5 6 = (True, privateManager)
   \<and> isPrivate (heap privateManager 0) \<and> isPrivateMode privateManager
   \<and> encryptionKey privateManager = Some ''k''
   \<and> transmitted privateManager = [PrivateKey ''room42'' ''k'' ''A'' 5]
   \<and> messageReceivedCalls privateManager = [SystemMessage ''id1'' textSwitchedPrivate 6]
   \<and> (\<exists>msg s''. sendMessage asciiBytes privateManager ''hi'' ''text'' ''id2'' 7 = Inr (msg, s'')
          \<and> isEncrypted msg \<and> content msg = ''0302'' \<and> content msg \<noteq> ''hi'')
   \<and> currentRoom privateManager = Some 0
   \<and> isPrivate (heap privateManager 0) = isPrivateMode privateManager
   \<and> togglePrivacyMode privateManager ''k2'' ''id3'' 8 9 = (False, publicAgain)
   \<and> \<not> isPrivate (heap publicAgain 0) \<and> \<not> isPrivateMode publicAgain
   \<and> encryptionKey publicAgain = None
   \<and> (\<exists>msg s''. sendMessage asciiBytes publicAgain ''hi'' ''text'' ''id4'' 10 = Inr (msg, s'')
          \<and> \<not> isEncrypted msg \<and> content msg = ''hi'')"
proof -
  have h1: "currentRoom exampleManager = Some 0" by (simp add: exampleManager_def)
  have h2: "isPrivate (heap exampleManager 0) = isPrivateMode exampleManager"
    by (simp add: exampleManager_def room42_def)
  have "fst (togglePrivacyMode exampleManager ''k'' ''id1'' 5 6) = True" by code_simp
  then have h3: "togglePrivacyMode exampleManager ''k'' ''id1'' 5 6 = (True, privateManager)"
    by (simp add: privateManager_def prod_eq_iff)
  have f1: "\<not> isPrivate (heap exampleManager 0)" "rid (heap exampleManager 0) = ''room42''"
    "myUserId exampleManager = ''A''" "transmitted exampleManager = []"
    "messageReceivedCalls exampleManager = []"
    by (simp_all add: exampleManager_def room42_def)
  have e: "encryptMessage asciiBytes ''hi'' ''k'' = ''0302''" by code_simp
  have l: "length ''hi'' \<le> length (asciiBytes ''hi'')" by (simp add: asciiBytes_def)
  note T1 = privacy_toggle[OF h1 h2 h3 refl, of asciiBytes "''hi''" "''text''" "''id2''" 7]
  have p: "isPrivateMode privateManager" using T1 f1 by simp
  have g1: "currentRoom privateManager = Some 0" using T1 by simp
  have g2: "isPrivate (heap privateManager 0) = isPrivateMode privateManager" using T1 by simp
  have "fst (togglePrivacyMode privateManager ''k2'' ''id3'' 8 9) = False" by code_simp
  then have g3: "togglePrivacyMode privateManager ''k2'' ''id3'' 8 9 = (False, publicAgain)"
    by (simp add: publicAgain_def prod_eq_iff)
  note T2 = privacy_toggle[OF g1 g2 g3 refl, of asciiBytes "''hi''" "''text''" "''id4''" 10]
  have q: "\<not> isPrivateMode publicAgain" using T2 p g2 by simp
  have part1: "isPrivate (heap privateManager 0) \<and> isPrivateMode privateManager
     \<and> encryptionKey privateManager = Some ''k''
     \<and> transmitted privateManager = [PrivateKey ''room42'' ''k'' ''A'' 5]
     \<and> messageReceivedCalls privateManager = [SystemMessage ''id1'' textSwitchedPrivate 6]
     \<and> (\<exists>msg s''. sendMessage asciiBytes privateManager ''hi'' ''text'' ''id2'' 7 = Inr (msg, s'')
          \<and> isEncrypted msg \<and> content msg = ''0302'' \<and> content msg \<noteq> ''hi'')"
    using T1 p f1 e l by auto
  have part2: "\<not> isPrivate (heap publicAgain 0) \<and> \<not> isPrivateMode publicAgain
     \<and> encryptionKey publicAgain = None
     \<and> (\<exists>msg s''. sendMessage asciiBytes publicAgain ''hi'' ''text'' ''id4'' 10 = Inr (msg, s'')
          \<and> \<not> isEncrypted msg \<and> content msg = ''hi'')"
    using T2 q by auto
  show ?thesis using h1 h2 h3 g1 g2 g3 part1 part2 by blast
qed


text \<open>
  The claim as stated fails for the empty text: in private mode its datagram has
  \<open>isEncrypted = true\<close> and the content is the empty string, which is the cleartext.
  It also fails when the generated key is the empty string (\<open>Math.random()\<close> returning
  0): no key datagram is handed over, and the text \<open>hi\<close> goes out as it is, marked as
  encrypted.
\<close>

theorem privacy_toggle_counterexample:
  "fst (togglePrivacyMode exampleManager ''k'' ''id1'' 5 6) = True
   \<and> encryptionKey privateManager = Some ''k''
   \<and> map_sum id fst (sendMessage asciiBytes privateManager [] ''text'' ''id2'' 7)
       = Inr \<lparr>messageId = ''id2'', roomId = ''room42'', fromUserId = ''A'',
              fromUsername = ''Alice'', content = [], messageType = ''text'',
              isEncrypted = True, timestamp = 7\<rparr>
   \<and> fst (togglePrivacyMode exampleManager [] ''id1'' 5 6) = True
   \<and> transmitted (snd (togglePrivacyMode exampleManager [] ''id1'' 5 6)) = []
   \<and> map_sum id fst
         (sendMessage asciiBytes (snd (togglePrivacyMode exampleManager [] ''id1'' 5 6))
            ''hi'' ''text'' ''id2'' 7)
       = Inr \<lparr>messageId = ''id2'', roomId = ''room42'', fromUserId = ''A'',
              fromUsername = ''Alice'', content = ''hi'', messageType = ''text'',
              isEncrypted = True, timestamp = 7\<rparr>"
  by code_simp

text \<open>
  C8 (duplicate suppression), as the code has it.  \<open>handleChatMessage\<close> never looks at
  \<open>messageId\<close>: every chat datagram for the current room that comes from another user
  is added to the history (by \<open>addMessage\<close>, which keeps the last \<open>maxHistorySize\<close>
  entries) and handed to \<open>onMessageReceived\<close>, whatever the history holds; the content
  shown is the received content when the datagram is not marked as encrypted.
\<close>

theorem no_duplicate_suppression:
  assumes "currentRoom s = Some ref" and "roomId d = rid (heap s ref)"
    and "fromUserId d \<noteq> myUserId s"
  shows "\<exists>shown. messageReceivedCalls (handleChatMessage enc dec s d)
                  = messageReceivedCalls s @ [ChatMessage (d\<lparr>content := shown\<rparr>) False]
           \<and> messageHistory (handleChatMessage enc dec s d)
                  = messageHistory (addMessage s (ChatMessage (d\<lparr>content := shown\<rparr>) False))
           \<and> (\<not> isEncrypted d \<longrightarrow> shown = content d)"
proof -
  define shown where "shown =
     (if isEncrypted d \<and> truthy (encryptionKey s) then
        (case decryptMessage enc dec (content d) (the (encryptionKey s)) of
           Inr t \<Rightarrow> t
         | Inl e \<Rightarrow> textDecryptFailed)
      else if isEncrypted d \<and> \<not> truthy (encryptionKey s) then textNoKey
      else content d)"
  have "handleChatMessage enc dec s d =
          (addMessage s (ChatMessage (d\<lparr>content := shown\<rparr>) False))
            \<lparr>messageReceivedCalls :=
               messageReceivedCalls (addMessage s (ChatMessage (d\<lparr>content := shown\<rparr>) False))
                 @ [ChatMessage (d\<lparr>content := shown\<rparr>) False]\<rparr>"
    using assms unfolding shown_def
    by (simp add: handleChatMessage_def currentRoomObject_def Let_def)
  moreover have "messageReceivedCalls (addMessage s m) = messageReceivedCalls s" for m
    by (simp add: addMessage_def Let_def)
  moreover have "\<not> isEncrypted d \<longrightarrow> shown = content d"
    by (simp add: shown_def)
  ultimately show ?thesis by auto
qed

theorem no_duplicate_suppression_witness:
  "currentRoom exampleManager = Some 0 \<and> roomId exampleChat = rid (heap exampleManager 0)
   \<and> fromUserId exampleChat \<noteq> myUserId exampleManager
   \<and> (\<exists>shown. messageReceivedCalls (handleChatMessage asciiBytes asciiText exampleManager exampleChat)
                  = messageReceivedCalls exampleManager
                    @ [ChatMessage (exampleChat\<lparr>content := shown\<rparr>) False]
           \<and> messageHistory (handleChatMessage asciiBytes asciiText exampleManager exampleChat)
                  = messageHistory (addMessage exampleManager
                      (ChatMessage (exampleChat\<lparr>content := shown\<rparr>) False))
           \<and> (\<not> isEncrypted exampleChat \<longrightarrow> shown = content exampleChat))"
proof -
  have h1: "currentRoom exampleManager = Some 0" by (simp add: exampleManager_def)
  have h2: "roomId exampleChat = rid (heap exampleManager 0)"
    by (simp add: exampleManager_def exampleChat_def room42_def)
  have h3: "fromUserId exampleChat \<noteq> myUserId exampleManager"
    by (simp add: exampleManager_def exampleChat_def)
  show ?thesis
    using no_duplicate_suppression[OF h1 h2 h3, of asciiBytes asciiText] h1 h2 h3 by blast
qed


text \<open>
  The claim as stated fails: two chat datagrams with the same \<open>messageId\<close> and time
  stamps one second apart are both added to the history and both delivered.
\<close>

theorem duplicate_suppression_counterexample:
  "messageId (exampleChat\<lparr>timestamp := 2000\<rparr>) = messageId exampleChat
   \<and> \<bar>timestamp (exampleChat\<lparr>timestamp := 2000\<rparr>) - timestamp exampleChat\<bar> \<le> 60000
   \<and> messageHistory
        (handleChatMessage asciiBytes asciiText
           (handleChatMessage asciiBytes asciiText exampleManager exampleChat)
           (exampleChat\<lparr>timestamp := 2000\<rparr>))
       = [ChatMessage exampleChat False, ChatMessage (exampleChat\<lparr>timestamp := 2000\<rparr>) False]
   \<and> messageReceivedCalls
        (handleChatMessage asciiBytes asciiText
           (handleChatMessage asciiBytes asciiText exampleManager exampleChat)
           (exampleChat\<lparr>timestamp := 2000\<rparr>))
       = [ChatMessage exampleChat False, ChatMessage (exampleChat\<lparr>timestamp := 2000\<rparr>) False]"
  by code_simp

text \<open>
  C9 (peer expiry), as the code has it.  \<open>cleanupExpiredUsers\<close> removes from
  \<open>discoveredUsers\<close> every entry last seen more than 10 seconds before \<open>now\<close>: the peer is
  no longer in the list of \<open>getDiscoveredUsers\<close>, nor (the keys of the table being
  distinct) under its key; entries seen more recently stay.  At the session layer,
  \<open>cleanupOfflineUsers\<close> marks every user last seen more than 30 seconds before \<open>now\<close>
  as offline and reports it to \<open>onUserLeft\<close>, and removes nothing: the table keeps all its
  keys and \<open>getConnectedUsers\<close> stays as long as it was.
\<close>

theorem peer_expiry:
  "((uid, user) \<in> set (discoveredUsers c) \<and> now - lastSeen user > 10000 \<longrightarrow>
      user \<notin> set (getDiscoveredUsers (cleanupExpiredUsers c now))
      \<and> (distinct (map fst (discoveredUsers c)) \<longrightarrow>
            map_of (discoveredUsers (cleanupExpiredUsers c now)) uid = None))
   \<and> ((uid, user) \<in> set (discoveredUsers c) \<and> now - lastSeen user \<le> 10000 \<longrightarrow>
      (uid, user) \<in> set (discoveredUsers (cleanupExpiredUsers c now)))
   \<and> ((peer, u) \<in> set (connectedUsers s) \<and> now - cuLastSeen u > 30000 \<longrightarrow>
      (peer, u\<lparr>isOnline := False\<rparr>) \<in> set (connectedUsers (cleanupOfflineUsers s now))
      \<and> (peer, u\<lparr>isOnline := False\<rparr>) \<in> set (userLeftCalls (cleanupOfflineUsers s now)))
   \<and> map fst (connectedUsers (cleanupOfflineUsers s now)) = map fst (connectedUsers s)
   \<and> length (getConnectedUsers (cleanupOfflineUsers s now)) = length (getConnectedUsers s)"
proof (intro conjI impI)
  assume a: "(uid, user) \<in> set (discoveredUsers c) \<and> now - lastSeen user > 10000"
  show "user \<notin> set (getDiscoveredUsers (cleanupExpiredUsers c now))"
    using a by (auto simp: getDiscoveredUsers_def cleanupExpiredUsers_def)
  assume d: "distinct (map fst (discoveredUsers c))"
  show "map_of (discoveredUsers (cleanupExpiredUsers c now)) uid = None"
  proof (rule ccontr)
    assume "map_of (discoveredUsers (cleanupExpiredUsers c now)) uid \<noteq> None"
    then obtain v where "map_of (discoveredUsers (cleanupExpiredUsers c now)) uid = Some v"
      by auto
    then have v: "(uid, v) \<in> set (discoveredUsers (cleanupExpiredUsers c now))"
      by (rule map_of_SomeD)
    then have "(uid, v) \<in> set (discoveredUsers c)" and fresh: "\<not> now - lastSeen v > 10000"
      by (auto simp: cleanupExpiredUsers_def)
    with d a have "v = user" by (meson eq_key_imp_eq_value)
    with fresh a show False by simp
  qed
next
  assume "(uid, user) \<in> set (discoveredUsers c) \<and> now - lastSeen user \<le> 10000"
  then show "(uid, user) \<in> set (discoveredUsers (cleanupExpiredUsers c now))"
    by (auto simp: cleanupExpiredUsers_def)
next
  assume a: "(peer, u) \<in> set (connectedUsers s) \<and> now - cuLastSeen u > 30000"
  then show in_users: "(peer, u\<lparr>isOnline := False\<rparr>) \<in> set (connectedUsers (cleanupOfflineUsers s now))"
    by (force simp: cleanupOfflineUsers_def Let_def)
  then show "(peer, u\<lparr>isOnline := False\<rparr>) \<in> set (userLeftCalls (cleanupOfflineUsers s now))"
    using a by (auto simp: cleanupOfflineUsers_def Let_def)
next
  show "map fst (connectedUsers (cleanupOfflineUsers s now)) = map fst (connectedUsers s)"
    by (auto simp: cleanupOfflineUsers_def Let_def)
  then show "length (getConnectedUsers (cleanupOfflineUsers s now)) = length (getConnectedUsers s)"
    by (simp add: getConnectedUsers_def cleanupOfflineUsers_def Let_def)
qed

theorem peer_expiry_witness:
  "(''B'', peerB) \<in> set (discoveredUsers \<lparr>commUserId = ''A'', discoveredUsers = [(''B'', peerB)],
                                         userDetectedCalls = []\<rparr>)
   \<and> 30001 - lastSeen peerB > 10000
   \<and> distinct (map fst (discoveredUsers \<lparr>commUserId = ''A'', discoveredUsers = [(''B'', peerB)],
                                         userDetectedCalls = []\<rparr>))
   \<and> peerB \<notin> set (getDiscoveredUsers (cleanupExpiredUsers
          \<lparr>commUserId = ''A'', discoveredUsers = [(''B'', peerB)], userDetectedCalls = []\<rparr> 30001))
   \<and> map_of (discoveredUsers (cleanupExpiredUsers
          \<lparr>commUserId = ''A'', discoveredUsers = [(''B'', peerB)], userDetectedCalls = []\<rparr> 30001))
        ''B'' = None
   \<and> (''B'', connectedB) \<in> set (connectedUsers (exampleManager\<lparr>connectedUsers := [(''B'', connectedB)]\<rparr>))
   \<and> 30001 - cuLastSeen connectedB > 30000
   \<and> (''B'', connectedB\<lparr>isOnline := False\<rparr>)
        \<in> set (connectedUsers (cleanupOfflineUsers
                  (exampleManager\<lparr>connectedUsers := [(''B'', connectedB)]\<rparr>) 30001))
   \<and> (''B'', connectedB\<lparr>isOnline := False\<rparr>)
        \<in> set (userLeftCalls (cleanupOfflineUsers
                  (exampleManager\<lparr>connectedUsers := [(''B'', connectedB)]\<rparr>) 30001))"
proof -
  have h1: "(''B'', peerB) \<in> set (discoveredUsers \<lparr>commUserId = ''A'',
              discoveredUsers = [(''B'', peerB)], userDetectedCalls = []\<rparr>)"
    by simp
  have h2: "30001 - lastSeen peerB > 10000" by (simp add: peerB_def)
  have h3: "distinct (map fst (discoveredUsers \<lparr>commUserId = ''A'',
              discoveredUsers = [(''B'', peerB)], userDetectedCalls = []\<rparr>))"
    by simp
  have h4: "(''B'', connectedB) \<in> set (connectedUsers (exampleManager\<lparr>connectedUsers := [(''B'', connectedB)]\<rparr>))"
    by simp
  have h5: "30001 - cuLastSeen connectedB > 30000" by (simp add: connectedB_def)
  show ?thesis
    using peer_expiry[of "''B''" peerB
        "\<lparr>commUserId = ''A'', discoveredUsers = [(''B'', peerB)], userDetectedCalls = []\<rparr>" 30001
        "''B''" connectedB "exampleManager\<lparr>connectedUsers := [(''B'', connectedB)]\<rparr>"]
      h1 h2 h3 h4 h5
    by blast
qed


text \<open>
  The claim as stated fails at the session layer: a user last seen 30001 ms ago is
  still listed by \<open>getConnectedUsers\<close> after \<open>cleanupOfflineUsers\<close>, marked as offline.
\<close>

theorem peer_expiry_counterexample:
  "30001 - cuLastSeen connectedB > 30000
   \<and> getConnectedUsers (cleanupOfflineUsers
        (exampleManager\<lparr>connectedUsers := [(''B'', connectedB)]\<rparr>) 30001)
       = [connectedB\<lparr>isOnline := False\<rparr>]"
  by code_simp

end
